theory Spec2Isabelle
  imports Complex_Main
begin

section \<open>Data model\<close>

text \<open>
  The repository holds two generations of the same module: \<^verbatim>\<open>src/unitkit/main.py\<close>
  (current) and \<^verbatim>\<open>src/units/main.py\<close> (older, called \<^emph>\<open>legacy\<close> below). Both define
  the classes \<^verbatim>\<open>Units\<close> and \<^verbatim>\<open>Value\<close>. Definitions without a prefix embed the
  \<^verbatim>\<open>unitkit\<close> code; definitions prefixed \<open>legacy_\<close> embed the \<^verbatim>\<open>units\<close> code where it
  differs.

  Python numbers (\<^verbatim>\<open>int\<close> and \<^verbatim>\<open>float\<close>) are read as exact reals: rounding, overflow
  and NaN are outside the model. Division by zero raises, as it does in Python for
  both number types.
\<close>

text \<open>
  Modelled from the spec: the class \<^verbatim>\<open>BaseUnit\<close> (\<^verbatim>\<open>base.py\<close>) is imported by both
  modules and is missing from the sources. Spec section 3 gives an atomic unit the fields
  symbol, dimension, exponent, magnitude and an optional offset. The field \<open>expn\<close> is the
  source's \<^verbatim>\<open>exp\<close>.
\<close>

record BaseUnit =
  symbol :: string
  dimension :: string
  expn :: real
  magnitude :: real
  offset :: "real option"

text \<open>
  \<^verbatim>\<open>class Units\<close>: the attributes \<^verbatim>\<open>string\<close> and \<^verbatim>\<open>base_units\<close> set by
  \<^verbatim>\<open>Units.__init__\<close>.
\<close>

record Units =
  string :: string
  base_units :: "BaseUnit list"

text \<open>
  \<^verbatim>\<open>class Value\<close>: the attributes set by \<^verbatim>\<open>Value.__init__\<close>. The field \<open>num\<close> is
  \<^verbatim>\<open>self.value\<close> in unitkit and \<^verbatim>\<open>self.num\<close> in the legacy module.
\<close>

record Value =
  num :: real
  units :: Units
  sigfigs :: int

text \<open>The exceptions the modelled code raises, and the one warning it emits.\<close>

datatype error =
    NeedsMolecularWeight
  | CantConvert Units Units
  | ZeroDivisionError
  | TypeError
  | AttributeError

datatype warning = AssumingUnits Units

text \<open>
  What the modules import and the sources do not contain, taken as parameters:
  the unit-string parser and unit table (\<^verbatim>\<open>parse_units\<close> on a non-empty string),
  \<^verbatim>\<open>BaseUnit.mod()\<close>, \<^verbatim>\<open>BaseUnit.to_dimension_base()\<close>, \<^verbatim>\<open>BaseUnit.can_expand()\<close>,
  \<^verbatim>\<open>BaseUnit.full_expand()\<close>, the two temperature helpers of the \<^verbatim>\<open>conversions\<close> module,
  Python's \<^verbatim>\<open>str\<close> of a float (used by \<^verbatim>\<open>count_sigfigs\<close>) and Python's float power
  \<^verbatim>\<open>**\<close>.
\<close>

record env =
  unit_table :: "string \<Rightarrow> string \<times> BaseUnit list"
  unit_mod :: "BaseUnit \<Rightarrow> real"
  to_dimension_base :: "BaseUnit \<Rightarrow> BaseUnit \<times> real"
  can_expand :: "BaseUnit \<Rightarrow> bool"
  full_expand :: "BaseUnit \<Rightarrow> Units \<times> real"
  is_temperature_conversion :: "Units \<Rightarrow> Units \<Rightarrow> bool"
  get_temperature_converter :: "Units \<Rightarrow> Units \<Rightarrow> real \<Rightarrow> real"
  float_str :: "real \<Rightarrow> string"
  float_pow :: "real \<Rightarrow> real \<Rightarrow> error + real"

section \<open>Atomic units\<close>

text \<open>
  Modelled from the spec: \<^verbatim>\<open>BaseUnit.__eq__\<close>. Section 3: two atomic units are the same
  factor iff they share the symbol.
\<close>

definition same_unit :: "BaseUnit \<Rightarrow> BaseUnit \<Rightarrow> bool" where
  "same_unit a b = (symbol a = symbol b)"

text \<open>
  Modelled from the spec: \<^verbatim>\<open>BaseUnit.__mul__\<close> on two units of one symbol. Section 4.1:
  the exponents are added, and the result is the cancelled sentinel (\<^verbatim>\<open>None\<close>) when the
  sum is 0.
\<close>

definition BaseUnit_mul :: "BaseUnit \<Rightarrow> BaseUnit \<Rightarrow> BaseUnit option" where
  "BaseUnit_mul a b =
     (if expn a + expn b = 0 then None else Some (a\<lparr>expn := expn a + expn b\<rparr>))"

text \<open>
  Modelled from the spec: truthiness of what \<^verbatim>\<open>BaseUnit.__mul__\<close> returned. Section 4.1:
  a unit with exponent 0 is false; \<^verbatim>\<open>None\<close> is false in Python.
\<close>

definition truthy :: "BaseUnit option \<Rightarrow> bool" where
  "truthy r = (case r of None \<Rightarrow> False | Some u \<Rightarrow> expn u \<noteq> 0)"

text \<open>
  Modelled from the spec: \<^verbatim>\<open>BaseUnit.update_exp(k)\<close>. Section 4.1: the exponent is
  multiplied by \<open>k\<close>. Both modules call it for its effect on the unit, so the model
  returns the updated unit.
\<close>

definition BaseUnit_update_exp :: "BaseUnit \<Rightarrow> real \<Rightarrow> BaseUnit" where
  "BaseUnit_update_exp u k = u\<lparr>expn := expn u * k\<rparr>"

section \<open>Unit expressions (unitkit)\<close>

text \<open>
  Modelled from the spec: \<^verbatim>\<open>parse_units\<close> (\<^verbatim>\<open>parse.py\<close>) is missing from the sources.
  Section 3: a unitless quantity has an empty unit expression, which is what a quantity
  built without units (\<^verbatim>\<open>None\<close>) and the empty accumulator \<^verbatim>\<open>Units()\<close> must be. Any other
  string goes through the parameter \<open>unit_table\<close>.
\<close>

definition parse_units :: "env \<Rightarrow> string option \<Rightarrow> string \<times> BaseUnit list" where
  "parse_units e s =
     (case s of
        None \<Rightarrow> ([], [])
      | Some t \<Rightarrow> if t = [] then ([], []) else unit_table e t)"

text \<open>The loop that closes \<^verbatim>\<open>Units.__init__\<close>: units with exponent 0 are popped.\<close>

definition drop_zero :: "BaseUnit list \<Rightarrow> BaseUnit list" where
  "drop_zero us = filter (\<lambda>u. expn u \<noteq> 0) us"

text \<open>\<^verbatim>\<open>Units(string)\<close> with \<^verbatim>\<open>parse=True\<close>.\<close>

definition Units_parse :: "env \<Rightarrow> string option \<Rightarrow> Units" where
  "Units_parse e s =
     (case parse_units e s of (str, us) \<Rightarrow> \<lparr>string = str, base_units = drop_zero us\<rparr>)"

text \<open>\<^verbatim>\<open>list.pop(i)\<close> for an index in range: the list without its element \<open>i\<close>.\<close>

definition pop :: "nat \<Rightarrow> 'a list \<Rightarrow> 'a list" where
  "pop i xs = take i xs @ drop (Suc i) xs"

text \<open>
  \<^verbatim>\<open>_combine_unit_list\<close>, inner loop: \<open>current\<close> absorbs every unit of its symbol in
  \<open>remaining\<close>, from index \<open>i\<close> on, and the loop breaks when the product is \<^verbatim>\<open>None\<close>.
\<close>

function combine_scan :: "BaseUnit \<Rightarrow> BaseUnit list \<Rightarrow> nat \<Rightarrow> BaseUnit option \<times> BaseUnit list" where
  "combine_scan current remaining i =
     (if i < length remaining then
        (if same_unit current (remaining ! i) then
           (case BaseUnit_mul current (remaining ! i) of
              None \<Rightarrow> (None, pop i remaining)
            | Some c \<Rightarrow> combine_scan c (pop i remaining) i)
         else combine_scan current remaining (i + 1))
      else (Some current, remaining))"
  by pat_completeness auto
termination
  by (relation "measure (\<lambda>(c, r, i). length r - i)") (auto simp: pop_def)

declare combine_scan.simps [simp del]

text \<open>The scan never lengthens the list: the measure of the outer loop.\<close>

lemma combine_scan_length: "length (snd (combine_scan c r i)) \<le> length r"
proof (induction c r i rule: combine_scan.induct)
  case (1 c r i)
  show ?case
  proof (cases "i < length r")
    case False
    then show ?thesis by (simp add: combine_scan.simps [of c r i])
  next
    case inr: True
    show ?thesis
    proof (cases "same_unit c (r ! i)")
      case False
      with inr "1.IH"(2) show ?thesis by (simp add: combine_scan.simps [of c r i])
    next
      case same: True
      show ?thesis
      proof (cases "BaseUnit_mul c (r ! i)")
        case None
        with inr same show ?thesis
          by (simp add: combine_scan.simps [of c r i] pop_def)
      next
        case (Some c')
        from "1.IH"(1) [OF inr same Some]
        have "length (snd (combine_scan c' (pop i r) i)) \<le> length (pop i r)" .
        moreover have "length (pop i r) \<le> length r" by (simp add: pop_def)
        ultimately show ?thesis
          using inr same Some by (simp add: combine_scan.simps [of c r i])
      qed
    qed
  qed
qed

text \<open>
  \<^verbatim>\<open>_combine_unit_list\<close>, outer loop: \<^verbatim>\<open>remaining.pop()\<close> takes the last unit; it is
  appended to \<open>combined\<close> when it is truthy after the scan.
\<close>

function combine_loop :: "BaseUnit list \<Rightarrow> BaseUnit list \<Rightarrow> BaseUnit list" where
  "combine_loop remaining combined =
     (if 0 < length remaining then
        (case combine_scan (last remaining) (butlast remaining) 0 of
           (current, rest) \<Rightarrow>
             combine_loop rest (if truthy current then combined @ [the current] else combined))
      else combined)"
  by pat_completeness auto
termination
proof (relation "measure (\<lambda>(r, c). length r)", goal_cases)
  case 1
  show ?case by simp
next
  case (2 remaining combined current rest)
  have "length rest \<le> length (butlast remaining)"
    using combine_scan_length [of "last remaining" "butlast remaining" 0] 2
    by (metis snd_conv)
  moreover from 2 have "length (butlast remaining) < length remaining"
    by (cases remaining rule: rev_cases) simp_all
  ultimately show ?case
    by simp
qed

declare combine_loop.simps [simp del]

definition combine_unit_list :: "BaseUnit list \<Rightarrow> BaseUnit list" where
  "combine_unit_list us = combine_loop us []"

text \<open>
  \<^verbatim>\<open>_flatten_unit_list\<close>: the argument may hold atomic units and nested unit
  expressions; a nested expression with units is replaced by them, anything else is
  kept.
\<close>

datatype unit_item = Base BaseUnit | Nested Units

fun flatten_unit_list :: "unit_item list \<Rightarrow> unit_item list" where
  "flatten_unit_list [] = []"
| "flatten_unit_list (Base u # xs) = Base u # flatten_unit_list xs"
| "flatten_unit_list (Nested U # xs) =
     (if base_units U \<noteq> [] then map Base (base_units U) @ flatten_unit_list xs
      else Nested U # flatten_unit_list xs)"

text \<open>
  \<^verbatim>\<open>Units(base_units=us, parse=False)\<close> on a list of atomic units: flattening leaves
  such a list as it is, the units are combined, and zero exponents are dropped. The
  \<^verbatim>\<open>string\<close> attribute keeps the argument's default or the given string.
\<close>

definition Units_of_list :: "string \<Rightarrow> BaseUnit list \<Rightarrow> Units" where
  "Units_of_list str us = \<lparr>string = str, base_units = drop_zero (combine_unit_list us)\<rparr>"

fun item_bases :: "unit_item list \<Rightarrow> BaseUnit list option" where
  "item_bases [] = Some []"
| "item_bases (Base u # xs) = map_option (Cons u) (item_bases xs)"
| "item_bases (Nested U # xs) = None"

text \<open>
  The same constructor on a mixed list. A nested expression that survives flattening
  (an empty one) has no \<^verbatim>\<open>exp\<close> attribute, so the zero-exponent loop raises
  \<^verbatim>\<open>AttributeError\<close>.
\<close>

definition Units_of_items :: "string \<Rightarrow> unit_item list \<Rightarrow> error + Units" where
  "Units_of_items str xs =
     (case item_bases (flatten_unit_list xs) of
        None \<Rightarrow> Inl AttributeError
      | Some us \<Rightarrow> Inr (Units_of_list str us))"

text \<open>\<^verbatim>\<open>u in xs\<close> for a list of atomic units: some member equals \<open>u\<close>.\<close>

definition unit_in :: "BaseUnit \<Rightarrow> BaseUnit list \<Rightarrow> bool" where
  "unit_in u xs = list_ex (same_unit u) xs"

text \<open>
  \<^verbatim>\<open>Units()\<close>: the default string \<^verbatim>\<open>""\<close> is parsed, which gives no units (see
  \<open>parse_units\<close>); it does not depend on the unit table.
\<close>

definition Units_new :: Units where
  "Units_new = \<lparr>string = [], base_units = drop_zero []\<rparr>"

text \<open>
  \<^verbatim>\<open>Units.__mul__\<close>, the branch for another unit expression. Each unit of \<open>self\<close> is
  multiplied with the first unit of its symbol in \<open>other\<close> and kept when truthy; the
  units of \<open>other\<close> that are not in \<open>self\<close> are appended. The accumulator is \<^verbatim>\<open>Units()\<close>.
\<close>

definition mul_self_part :: "BaseUnit list \<Rightarrow> BaseUnit \<Rightarrow> BaseUnit option" where
  "mul_self_part others u =
     (if unit_in u others then BaseUnit_mul u (hd (filter (same_unit u) others)) else Some u)"

definition Units_mul :: "Units \<Rightarrow> Units \<Rightarrow> Units" where
  "Units_mul self other =
     Units_new\<lparr>base_units :=
        base_units Units_new
        @ map the (filter truthy (map (mul_self_part (base_units other)) (base_units self)))
        @ filter (\<lambda>u. \<not> unit_in u (base_units self)) (base_units other)\<rparr>"

text \<open>\<^verbatim>\<open>Units.__mul__\<close>, the branch for a single atomic unit.\<close>

definition Units_mul_base :: "Units \<Rightarrow> BaseUnit \<Rightarrow> Units" where
  "Units_mul_base self other =
     Units_new\<lparr>base_units :=
        base_units Units_new
        @ map the (filter truthy
            (map (\<lambda>u. if same_unit u other then BaseUnit_mul u other else Some u) (base_units self)))
        @ (if \<not> unit_in other (base_units self) then [other] else [])\<rparr>"

text \<open>
  \<^verbatim>\<open>Units.copy\<close>: \<^verbatim>\<open>Units(string=self.string, parse=False)\<close> has no units, then a copy of
  every unit is appended.
\<close>

definition Units_copy :: "Units \<Rightarrow> Units" where
  "Units_copy self =
     (Units_of_list (string self) [])\<lparr>base_units :=
        base_units (Units_of_list (string self) []) @ base_units self\<rparr>"

text \<open>\<^verbatim>\<open>Units.update_exp\<close> and \<^verbatim>\<open>Units.invert\<close> (unitkit): work on a copy.\<close>

definition Units_update_exp :: "Units \<Rightarrow> real \<Rightarrow> Units" where
  "Units_update_exp self k =
     (Units_copy self)\<lparr>base_units :=
        map (\<lambda>u. BaseUnit_update_exp u k) (base_units (Units_copy self))\<rparr>"

definition Units_invert :: "Units \<Rightarrow> Units" where
  "Units_invert self =
     (Units_copy self)\<lparr>base_units :=
        map (\<lambda>u. BaseUnit_update_exp u (- 1)) (base_units (Units_copy self))\<rparr>"

text \<open>\<^verbatim>\<open>Units.__truediv__\<close> and \<^verbatim>\<open>Units.is_unitless\<close>.\<close>

definition Units_div :: "Units \<Rightarrow> Units \<Rightarrow> Units" where
  "Units_div self other = Units_mul self (Units_invert other)"

definition is_unitless :: "Units \<Rightarrow> bool" where
  "is_unitless self = (length (base_units self) = 0)"

text \<open>The invariant of section 3: no atomic unit of the expression has exponent 0.\<close>

definition no_zero :: "Units \<Rightarrow> bool" where
  "no_zero U = list_all (\<lambda>u. expn u \<noteq> 0) (base_units U)"

section \<open>Convertibility\<close>

text \<open>
  \<^verbatim>\<open>can_convert\<close> (\<^verbatim>\<open>src/units/main.py\<close>; unitkit calls the same function of its
  \<^verbatim>\<open>conversions\<close> module, which spec section 4.3 step 4 describes the same way). The
  dictionary \<^verbatim>\<open>dimensions\<close> is an association list in insertion order: a new dimension
  starts at 0, and the exponent is added.
\<close>

fun dim_add :: "(string \<times> real) list \<Rightarrow> string \<Rightarrow> real \<Rightarrow> (string \<times> real) list" where
  "dim_add [] d x = [(d, 0 + x)]"
| "dim_add ((k, v) # kvs) d x = (if k = d then (k, v + x) # kvs else (k, v) # dim_add kvs d x)"

definition dimension_sums :: "BaseUnit list \<Rightarrow> (string \<times> real) list" where
  "dimension_sums us = foldl (\<lambda>dimensions u. dim_add dimensions (dimension u) (expn u)) [] us"

definition can_convert :: "Units \<Rightarrow> bool" where
  "can_convert U = list_all (\<lambda>kv. snd kv = 0) (dimension_sums (base_units U))"

section \<open>Simplification (unitkit)\<close>

text \<open>
  Modelled from the spec: \<^verbatim>\<open>BaseUnit.__mul__\<close> and \<^verbatim>\<open>BaseUnit.__truediv__\<close> on the two
  atomic units that \<^verbatim>\<open>simplify\<close> hands to \<^verbatim>\<open>can_convert\<close>. Section 4.2 tests whether
  \<open>u * r\<close> and \<open>u / r\<close> are convertible to unitless, so the result is the unit
  expression of \<open>u\<close> multiplied by \<open>r\<close>, or by \<open>r\<close> inverted.
\<close>

definition base_times :: "BaseUnit \<Rightarrow> BaseUnit \<Rightarrow> Units" where
  "base_times u r = Units_mul_base (Units_new\<lparr>base_units := [u]\<rparr>) r"

definition base_over :: "BaseUnit \<Rightarrow> BaseUnit \<Rightarrow> Units" where
  "base_over u r = Units_mul_base (Units_new\<lparr>base_units := [u]\<rparr>) (BaseUnit_update_exp r (- 1))"

text \<open>
  \<^verbatim>\<open>Units.simplify\<close>, inner loop \<^verbatim>\<open>while i < len(remaining)\<close>. The result is the unit
  \<open>u\<close> with its exponent as the loop left it, what is left of \<open>remaining\<close>, and the flag
  \<^verbatim>\<open>canceled\<close>. Not returning is the value \<open>None\<close>.
\<close>

partial_function (option) simplify_scan ::
  "BaseUnit \<Rightarrow> BaseUnit list \<Rightarrow> nat \<Rightarrow> (BaseUnit \<times> BaseUnit list \<times> bool) option" where
  "simplify_scan u remaining i =
     (if i < length remaining then
        (if can_convert (base_times u (remaining ! i)) then Some (u, pop i remaining, True)
         else if can_convert (base_over u (remaining ! i)) then
           simplify_scan (u\<lparr>expn := expn u + expn (remaining ! i)\<rparr>) (pop i remaining) i
         else simplify_scan u remaining (i + 1))
      else Some (u, remaining, False))"

text \<open>
  \<^verbatim>\<open>Units.simplify\<close>, outer loop \<^verbatim>\<open>while len(remaining) > 0\<close>: \<^verbatim>\<open>remaining.pop(0)\<close> is
  scanned against the rest and appended to \<open>keep\<close> unless it was cancelled.
\<close>

partial_function (option) simplify_loop ::
  "BaseUnit list \<Rightarrow> BaseUnit list \<Rightarrow> BaseUnit list option" where
  "simplify_loop remaining keep =
     (if 0 < length remaining then
        (case simplify_scan (hd remaining) (tl remaining) 0 of
           None \<Rightarrow> None
         | Some (u, rest, canceled) \<Rightarrow>
             simplify_loop rest (if \<not> canceled then keep @ [u] else keep))
      else Some keep)"

text \<open>One pass of the outer loop's body, on the pair of lists it updates.\<close>

definition simplify_iter ::
  "BaseUnit list \<times> BaseUnit list \<Rightarrow> (BaseUnit list \<times> BaseUnit list) option" where
  "simplify_iter st =
     (case simplify_scan (hd (fst st)) (tl (fst st)) 0 of
        None \<Rightarrow> None
      | Some (u, rest, canceled) \<Rightarrow> Some (rest, if \<not> canceled then snd st @ [u] else snd st))"

definition simplify :: "Units \<Rightarrow> Units option" where
  "simplify self = map_option (Units_of_list []) (simplify_loop (base_units self) [])"

text \<open>
  Two atomic units are partners when the scan of \<^verbatim>\<open>simplify\<close> would cancel or fold them;
  a list has no partners when no unit has one among the units after it.
\<close>

definition partner :: "BaseUnit \<Rightarrow> BaseUnit \<Rightarrow> bool" where
  "partner u r = (can_convert (base_times u r) \<or> can_convert (base_over u r))"

fun no_partner :: "BaseUnit list \<Rightarrow> bool" where
  "no_partner [] = True"
| "no_partner (u # rs) = (list_all (\<lambda>r. \<not> partner u r) rs \<and> no_partner rs)"

text \<open>The symbol-to-exponent mapping of a unit expression.\<close>

definition exponents :: "Units \<Rightarrow> string \<Rightarrow> real option" where
  "exponents U = map_of (map (\<lambda>u. (symbol u, expn u)) (base_units U))"

text \<open>
  The class of unit expressions for which a second \<^verbatim>\<open>simplify\<close> changes nothing.
  \<open>dim_count d us\<close> is the number of atomic units of dimension \<open>d\<close> in a list; a list
  has at most two units per dimension when no dimension occurs more than twice. A unit
  expression is well formed when no symbol occurs twice and no exponent is 0, as the
  constructors leave it.
\<close>

definition dim_count :: "string \<Rightarrow> BaseUnit list \<Rightarrow> nat" where
  "dim_count d us = length (filter (\<lambda>u. dimension u = d) us)"

definition two_per_dimension :: "BaseUnit list \<Rightarrow> bool" where
  "two_per_dimension us = list_all (\<lambda>u. dim_count (dimension u) us \<le> 2) us"

definition well_formed :: "Units \<Rightarrow> bool" where
  "well_formed U = (distinct (map symbol (base_units U)) \<and> no_zero U)"

text \<open>
  What the two tests of the scan come to for two units of different symbols: the same
  dimension, and exponents that cancel (\<open>u * r\<close>) or agree (\<open>u / r\<close>).
\<close>

definition cancellable :: "BaseUnit \<Rightarrow> BaseUnit \<Rightarrow> bool" where
  "cancellable u r = (dimension u = dimension r \<and> (expn u + expn r = 0 \<or> expn u = expn r))"

text \<open>
  What one scan of \<^verbatim>\<open>simplify\<close> establishes, from \<open>u\<close> and the list \<open>rs\<close> to the unit
  \<open>u'\<close>, the list \<open>rest\<close> and the flag \<open>c\<close> it returns, when \<open>rs\<close> holds at most one unit
  of the dimension of \<open>u\<close>.
\<close>

definition scan_post :: "BaseUnit \<Rightarrow> BaseUnit list \<Rightarrow> BaseUnit \<Rightarrow> BaseUnit list \<Rightarrow> bool \<Rightarrow> bool" where
  "scan_post u rs u' rest c \<longleftrightarrow>
     set rest \<subseteq> set rs \<and> distinct (map symbol rest)
     \<and> (\<forall>d. dim_count d rest \<le> dim_count d rs)
     \<and> symbol u' = symbol u \<and> dimension u' = dimension u \<and> expn u' \<noteq> 0
     \<and> (\<not> c \<longrightarrow> (\<forall>y \<in> set rest. \<not> cancellable u' y))
     \<and> (u' \<noteq> u \<or> c \<longrightarrow> dim_count (dimension u) rs = 1)"

text \<open>
  The invariant of the outer loop of \<^verbatim>\<open>simplify\<close> on such an expression: symbols
  occur once, no exponent is 0, every dimension occurs at most twice in \<open>remaining\<close>
  and \<open>keep\<close> together, and no unit of \<open>keep\<close> can be cancelled or folded with another
  unit of \<open>keep\<close> or with a unit of \<open>remaining\<close>.
\<close>

definition loop_inv :: "BaseUnit list \<Rightarrow> BaseUnit list \<Rightarrow> bool" where
  "loop_inv remaining keep \<longleftrightarrow>
     distinct (map symbol (remaining @ keep))
     \<and> (\<forall>x \<in> set (remaining @ keep). expn x \<noteq> 0)
     \<and> (\<forall>d. dim_count d remaining + dim_count d keep \<le> 2)
     \<and> (\<forall>x \<in> set keep. \<forall>y \<in> set keep. symbol x \<noteq> symbol y \<longrightarrow> \<not> cancellable x y)
     \<and> (\<forall>x \<in> set keep. \<forall>y \<in> set remaining. \<not> cancellable x y)"

text \<open>\<^verbatim>\<open>Units.expand_all\<close>: the loop over the units, then the constructor.\<close>

definition expand_step :: "env \<Rightarrow> BaseUnit list \<times> real \<Rightarrow> BaseUnit \<Rightarrow> BaseUnit list \<times> real" where
  "expand_step e acc u0 =
     (case to_dimension_base e u0 of
        (u, to_dbase_modifier) \<Rightarrow>
          (if can_expand e u then
             (case full_expand e u of
                (expanded, expand_modifier) \<Rightarrow>
                  (fst acc @ base_units expanded, snd acc * to_dbase_modifier * expand_modifier))
           else (fst acc @ [u], snd acc * to_dbase_modifier)))"

definition expand_all :: "env \<Rightarrow> Units \<Rightarrow> Units \<times> real" where
  "expand_all e self =
     (case foldl (expand_step e) ([], 1) (base_units self) of
        (new_base_units, modifier) \<Rightarrow> (Units_of_list [] new_base_units, modifier))"

section \<open>Quantities (unitkit)\<close>

text \<open>
  \<^verbatim>\<open>count_sigfigs\<close>, on the text \<^verbatim>\<open>str(number)\<close>: the sign is stripped, the exponent part
  after \<^verbatim>\<open>e\<close> is cut, and the text is split at the first point.
\<close>

definition lstrip :: "char \<Rightarrow> string \<Rightarrow> string" where
  "lstrip c s = dropWhile (\<lambda>x. x = c) s"

definition strip :: "char \<Rightarrow> string \<Rightarrow> string" where
  "strip c s = rev (lstrip c (rev (lstrip c s)))"

definition count_sigfigs :: "string \<Rightarrow> int" where
  "count_sigfigs str_number =
     (let number = takeWhile (\<lambda>x. x \<noteq> CHR ''e'') (lstrip CHR ''-'' str_number);
          integer = takeWhile (\<lambda>x. x \<noteq> CHR ''.'') number;
          decimal = drop 1 (dropWhile (\<lambda>x. x \<noteq> CHR ''.'') number)
      in if decimal \<noteq> [] then int (length (lstrip CHR ''0'' (integer @ decimal)))
         else int (length (strip CHR ''0'' integer)))"

text \<open>What an operator receives: a bare number or a quantity.\<close>

datatype operand = Number real | Quantity Value

text \<open>
  \<^verbatim>\<open>ensure_value_input\<close>: the decorator's coercion of the argument, with the warnings it
  emits. \<^verbatim>\<open>Value(float(input), None)\<close> parses no units; \<^verbatim>\<open>Value(float(input), self.units)\<close>
  takes the receiver's units. In both, \<^verbatim>\<open>sigfigs\<close> is counted on the float's text.
\<close>

definition ensure_value_input :: "env \<Rightarrow> Value \<Rightarrow> operand \<Rightarrow> Value \<times> warning list" where
  "ensure_value_input e self input =
     (case input of
        Quantity v \<Rightarrow> (v, [])
      | Number x \<Rightarrow>
          (if can_convert (units self) then
             (\<lparr>num = x, units = Units_parse e None, sigfigs = count_sigfigs (float_str e x)\<rparr>, [])
           else
             (\<lparr>num = x, units = units self, sigfigs = count_sigfigs (float_str e x)\<rparr>,
              [AssumingUnits (units self)])))"

text \<open>\<^verbatim>\<open>Value.__mul__\<close>, \<^verbatim>\<open>Value.__rmul__\<close>, \<^verbatim>\<open>Value.__truediv__\<close>, \<^verbatim>\<open>Value.__rtruediv__\<close>.\<close>

definition Value_mul :: "Value \<Rightarrow> operand \<Rightarrow> Value" where
  "Value_mul self other =
     (case other of
        Number x \<Rightarrow> \<lparr>num = num self * x, units = units self, sigfigs = sigfigs self\<rparr>
      | Quantity v \<Rightarrow>
          \<lparr>num = num self * num v, units = Units_mul (units self) (units v),
           sigfigs = min (sigfigs self) (sigfigs v)\<rparr>)"

definition Value_rmul :: "Value \<Rightarrow> operand \<Rightarrow> error + Value" where
  "Value_rmul self other =
     (case other of
        Number x \<Rightarrow> Inr (Value_mul self (Number x))
      | Quantity v \<Rightarrow> Inl TypeError)"

definition Value_truediv :: "Value \<Rightarrow> operand \<Rightarrow> error + Value" where
  "Value_truediv self other =
     (case other of
        Number x \<Rightarrow>
          (if x = 0 then Inl ZeroDivisionError
           else Inr \<lparr>num = num self / x, units = units self, sigfigs = sigfigs self\<rparr>)
      | Quantity v \<Rightarrow>
          (if num v = 0 then Inl ZeroDivisionError
           else Inr \<lparr>num = num self / num v, units = Units_div (units self) (units v),
                     sigfigs = min (sigfigs self) (sigfigs v)\<rparr>))"

definition Value_rtruediv :: "Value \<Rightarrow> operand \<Rightarrow> error + Value" where
  "Value_rtruediv self other =
     (case other of
        Quantity v \<Rightarrow> Inl TypeError
      | Number x \<Rightarrow>
          (if num self = 0 then Inl ZeroDivisionError
           else Inr \<lparr>num = x / num self, units = Units_invert (units self), sigfigs = sigfigs self\<rparr>))"

text \<open>
  \<^verbatim>\<open>Value.__pow__\<close>: the number is raised by Python's \<^verbatim>\<open>**\<close> (a parameter) and the units
  by \<^verbatim>\<open>Units.update_exp\<close>.
\<close>

definition Value_pow :: "env \<Rightarrow> Value \<Rightarrow> operand \<Rightarrow> error + Value" where
  "Value_pow e self ex =
     (let k = (case ex of Number x \<Rightarrow> x | Quantity v \<Rightarrow> num v) in
      case float_pow e (num self) k of
        Inl err \<Rightarrow> Inl err
      | Inr p \<Rightarrow> Inr \<lparr>num = p, units = Units_update_exp (units self) k, sigfigs = sigfigs self\<rparr>)"

section \<open>Conversion\<close>

text \<open>
  Modelled from the spec: \<^verbatim>\<open>Units(u)\<close> for an atomic unit \<open>u\<close>, which
  \<^verbatim>\<open>build_conversion_factor\<close> builds through \<^verbatim>\<open>Value(u.mod(), u)\<close>. The parser is missing;
  section 4.3 step 4 pairs the magnitude with the unit \<open>u\<close> alone.
\<close>

definition Units_of_base :: "BaseUnit \<Rightarrow> Units" where
  "Units_of_base u = \<lparr>string = symbol u, base_units = drop_zero [u]\<rparr>"

text \<open>
  \<^verbatim>\<open>build_conversion_factor\<close> (\<^verbatim>\<open>src/units/main.py\<close>; unitkit calls the same function of
  its \<^verbatim>\<open>conversions\<close> module, which spec section 4.3 step 4 describes the same way).
  The factor starts as \<^verbatim>\<open>Value(1, None)\<close>, whose sigfigs are counted on the text \<^verbatim>\<open>1\<close>.
\<close>

definition build_conversion_factor :: "env \<Rightarrow> Units \<Rightarrow> Value option \<Rightarrow> bool \<Rightarrow> Value" where
  "build_conversion_factor e converter_units mw needs_mw =
     (let factor = \<lparr>num = 1, units = Units_parse e None, sigfigs = count_sigfigs ''1''\<rparr>;
          converter_units' = (if needs_mw then Units_div converter_units (units (the mw))
                              else converter_units);
          factor' = (if needs_mw then Value_mul factor (Quantity (the mw)) else factor)
      in foldl (\<lambda>f u. Value_mul f (Quantity
                  \<lparr>num = unit_mod e u, units = Units_of_base u,
                   sigfigs = count_sigfigs (float_str e (unit_mod e u))\<rparr>))
           factor' (base_units converter_units'))"

text \<open>
  The block of \<^verbatim>\<open>convert_units\<close> that decides whether the molecular weight is needed
  (unitkit lines 288 to 301, legacy lines 235 to 248: the same text). It returns the
  molecular weight to use and \<^verbatim>\<open>needs_mw\<close>, or the exception. \<^verbatim>\<open>1 / mw\<close> is
  \<^verbatim>\<open>Value.__rtruediv__\<close>.
\<close>

definition resolve_mw ::
  "env \<Rightarrow> Units \<Rightarrow> Units \<Rightarrow> Units \<Rightarrow> Value option \<Rightarrow> error + (Value option \<times> bool)" where
  "resolve_mw e converter_units self_units new_units mw =
     (if \<not> can_convert converter_units then
        (let mw_units = Units_parse e (Some ''g/mol'') in
         if can_convert (Units_mul converter_units mw_units) then
           (case mw of
              None \<Rightarrow> Inl NeedsMolecularWeight
            | Some m \<Rightarrow>
                (case Value_rtruediv m (Number 1) of
                   Inl err \<Rightarrow> Inl err
                 | Inr m' \<Rightarrow> Inr (Some m', True)))
         else if can_convert (Units_div converter_units mw_units) then
           (case mw of
              None \<Rightarrow> Inl NeedsMolecularWeight
            | Some m \<Rightarrow> Inr (Some m, True))
         else Inl (CantConvert self_units new_units))
      else Inr (mw, False))"

text \<open>
  The two tests of that block, named: the ratio becomes convertible when multiplied by
  \<^verbatim>\<open>g/mol\<close> (the molecular weight is then used inverted), or when divided by it.
\<close>

definition bridge_inverted :: "env \<Rightarrow> Units \<Rightarrow> bool" where
  "bridge_inverted e ratio = can_convert (Units_mul ratio (Units_parse e (Some ''g/mol'')))"

definition bridge_direct :: "env \<Rightarrow> Units \<Rightarrow> bool" where
  "bridge_direct e ratio = can_convert (Units_div ratio (Units_parse e (Some ''g/mol'')))"

text \<open>
  \<^verbatim>\<open>Value.convert_units\<close> (unitkit) for a target that is already a \<^verbatim>\<open>Units\<close> object.
\<close>

definition convert_units :: "env \<Rightarrow> Value \<Rightarrow> Units \<Rightarrow> Value option \<Rightarrow> error + Value" where
  "convert_units e self new_units mw =
     (if is_temperature_conversion e (units self) new_units then
        Inr \<lparr>num = get_temperature_converter e (units self) new_units (num self),
             units = new_units, sigfigs = sigfigs self\<rparr>
      else
        (let converter_units = Units_div new_units (units self) in
         if is_unitless converter_units then
           Inr \<lparr>num = num self, units = new_units, sigfigs = sigfigs self\<rparr>
         else
           (case resolve_mw e converter_units (units self) new_units mw of
              Inl err \<Rightarrow> Inl err
            | Inr (mw', needs_mw) \<Rightarrow>
                (let conversion_factor = build_conversion_factor e converter_units mw' needs_mw;
                     new = Value_mul self (Quantity conversion_factor)
                 in Inr (new\<lparr>units := new_units, sigfigs := sigfigs self\<rparr>)))))"

text \<open>
  The decorated operators of unitkit. Each takes the argument through
  \<^verbatim>\<open>ensure_value_input\<close>, converts it to the receiver's units and works on the numbers.
  The operators return the value or the exception; the warnings are those of
  \<open>ensure_value_input\<close>.
\<close>

definition Value_add :: "env \<Rightarrow> Value \<Rightarrow> operand \<Rightarrow> error + Value" where
  "Value_add e self input =
     (case convert_units e (fst (ensure_value_input e self input)) (units self) None of
        Inl err \<Rightarrow> Inl err
      | Inr other \<Rightarrow>
          Inr \<lparr>num = num self + num other, units = units self,
               sigfigs = min (sigfigs self) (sigfigs other)\<rparr>)"

definition Value_radd :: "env \<Rightarrow> Value \<Rightarrow> operand \<Rightarrow> error + Value" where
  "Value_radd e self input =
     Value_add e self (Quantity (fst (ensure_value_input e self input)))"

definition Value_sub :: "env \<Rightarrow> Value \<Rightarrow> operand \<Rightarrow> error + Value" where
  "Value_sub e self input =
     (case convert_units e (fst (ensure_value_input e self input)) (units self) None of
        Inl err \<Rightarrow> Inl err
      | Inr other \<Rightarrow>
          Inr \<lparr>num = num self - num other, units = units self,
               sigfigs = min (sigfigs self) (sigfigs other)\<rparr>)"

text \<open>
  \<^verbatim>\<open>Value.__rsub__\<close>: \<^verbatim>\<open>other - self.value\<close> is \<^verbatim>\<open>Value.__sub__\<close> of the coerced argument
  with a bare number; the constructor reads the difference through \<^verbatim>\<open>__float__\<close>.
\<close>

definition Value_rsub :: "env \<Rightarrow> Value \<Rightarrow> operand \<Rightarrow> error + Value" where
  "Value_rsub e self input =
     (case Value_sub e (fst (ensure_value_input e self input)) (Number (num self)) of
        Inl err \<Rightarrow> Inl err
      | Inr d \<Rightarrow> Inr \<lparr>num = num d, units = units self, sigfigs = sigfigs self\<rparr>)"

definition Value_lt :: "env \<Rightarrow> Value \<Rightarrow> operand \<Rightarrow> error + bool" where
  "Value_lt e self input =
     (case convert_units e (fst (ensure_value_input e self input)) (units self) None of
        Inl err \<Rightarrow> Inl err
      | Inr other \<Rightarrow> Inr (num self < num other))"

definition Value_gt :: "env \<Rightarrow> Value \<Rightarrow> operand \<Rightarrow> error + bool" where
  "Value_gt e self input =
     (case convert_units e (fst (ensure_value_input e self input)) (units self) None of
        Inl err \<Rightarrow> Inl err
      | Inr other \<Rightarrow> Inr (num self > num other))"

text \<open>
  \<^verbatim>\<open>Value.equals\<close>: the difference is divided by \<^verbatim>\<open>self.value\<close>. \<^verbatim>\<open>Value.__eq__\<close> calls
  it with the default \<^verbatim>\<open>epsilon = 0.005\<close>.
\<close>

definition equals :: "env \<Rightarrow> Value \<Rightarrow> operand \<Rightarrow> real \<Rightarrow> error + bool" where
  "equals e self input epsilon =
     (case convert_units e (fst (ensure_value_input e self input)) (units self) None of
        Inl err \<Rightarrow> Inl err
      | Inr other \<Rightarrow>
          (if num self = 0 then Inl ZeroDivisionError
           else Inr (\<bar>(num self - num other) / num self\<bar> < epsilon)))"

definition Value_eq :: "env \<Rightarrow> Value \<Rightarrow> operand \<Rightarrow> error + bool" where
  "Value_eq e self other = equals e self other (5 / 1000)"

section \<open>The legacy module\<close>

text \<open>
  \<^verbatim>\<open>src/units/main.py\<close>. Its \<^verbatim>\<open>Units.__mul__\<close>, \<^verbatim>\<open>__truediv__\<close>, \<^verbatim>\<open>is_unitless\<close>,
  \<^verbatim>\<open>invert\<close> and \<^verbatim>\<open>copy\<close>, and its \<^verbatim>\<open>Value.__mul__\<close>, \<^verbatim>\<open>__truediv__\<close>, \<^verbatim>\<open>__rmul__\<close> and
  \<^verbatim>\<open>__rtruediv__\<close> have the text of unitkit's and share the definitions above. The
  constructor with \<^verbatim>\<open>parse=False\<close> flattens and drops zero exponents, without combining.
  The legacy attribute \<^verbatim>\<open>Units.dimension\<close>, a display string, is left out.
\<close>

definition legacy_Units_of_list :: "string \<Rightarrow> BaseUnit list \<Rightarrow> Units" where
  "legacy_Units_of_list str us = \<lparr>string = str, base_units = drop_zero us\<rparr>"

text \<open>
  \<^verbatim>\<open>Value.convert_units\<close> (legacy): no temperature branch; the unitless branch returns
  \<^verbatim>\<open>self.units\<close>; the product keeps its own units.
\<close>

definition legacy_convert_units :: "env \<Rightarrow> Value \<Rightarrow> Units \<Rightarrow> Value option \<Rightarrow> error + Value" where
  "legacy_convert_units e self new_units mw =
     (let converter_units = Units_div new_units (units self) in
      if is_unitless converter_units then
        Inr \<lparr>num = num self, units = units self, sigfigs = sigfigs self\<rparr>
      else
        (case resolve_mw e converter_units (units self) new_units mw of
           Inl err \<Rightarrow> Inl err
         | Inr (mw', needs_mw) \<Rightarrow>
             (let conversion_factor = build_conversion_factor e converter_units mw' needs_mw;
                  new = Value_mul self (Quantity conversion_factor)
              in Inr (new\<lparr>sigfigs := sigfigs self\<rparr>))))"

text \<open>
  The legacy additive operators test for a bare number themselves and use it as it
  is; the reflected ones raise \<^verbatim>\<open>TypeError\<close> for anything else.
\<close>

definition legacy_add :: "env \<Rightarrow> Value \<Rightarrow> operand \<Rightarrow> error + Value" where
  "legacy_add e self other =
     (case other of
        Number x \<Rightarrow> Inr \<lparr>num = num self + x, units = units self, sigfigs = sigfigs self\<rparr>
      | Quantity v \<Rightarrow>
          (case legacy_convert_units e v (units self) None of
             Inl err \<Rightarrow> Inl err
           | Inr other' \<Rightarrow>
               Inr \<lparr>num = num self + num other', units = units self,
                    sigfigs = min (sigfigs self) (sigfigs other')\<rparr>))"

definition legacy_radd :: "env \<Rightarrow> Value \<Rightarrow> operand \<Rightarrow> error + Value" where
  "legacy_radd e self other =
     (case other of
        Number x \<Rightarrow> legacy_add e self (Number x)
      | Quantity v \<Rightarrow> Inl TypeError)"

definition legacy_sub :: "env \<Rightarrow> Value \<Rightarrow> operand \<Rightarrow> error + Value" where
  "legacy_sub e self other =
     (case other of
        Number x \<Rightarrow> Inr \<lparr>num = num self - x, units = units self, sigfigs = sigfigs self\<rparr>
      | Quantity v \<Rightarrow>
          (case legacy_convert_units e v (units self) None of
             Inl err \<Rightarrow> Inl err
           | Inr other' \<Rightarrow>
               Inr \<lparr>num = num self - num other', units = units self,
                    sigfigs = min (sigfigs self) (sigfigs other')\<rparr>))"

definition legacy_rsub :: "Value \<Rightarrow> operand \<Rightarrow> error + Value" where
  "legacy_rsub self other =
     (case other of
        Number x \<Rightarrow> Inr \<lparr>num = x - num self, units = units self, sigfigs = sigfigs self\<rparr>
      | Quantity v \<Rightarrow> Inl TypeError)"

definition legacy_equals :: "env \<Rightarrow> Value \<Rightarrow> operand \<Rightarrow> real \<Rightarrow> error + bool" where
  "legacy_equals e self other epsilon =
     (case other of
        Number x \<Rightarrow> Inl TypeError
      | Quantity v \<Rightarrow>
          (case legacy_convert_units e v (units self) None of
             Inl err \<Rightarrow> Inl err
           | Inr other' \<Rightarrow>
               (if num self = 0 then Inl ZeroDivisionError
                else Inr (\<bar>(num self - num other') / num self\<bar> < epsilon))))"

text \<open>
  \<^verbatim>\<open>Units.simplify\<close> (legacy): the loops of unitkit's, with a running \<^verbatim>\<open>modifier\<close>. The
  divisions by \<^verbatim>\<open>u.mod()\<close> and by \<^verbatim>\<open>other.mod() * u.mod()\<close> raise when the divisor is 0.
  The result is the expression and the modifier, or the exception.
\<close>

partial_function (option) legacy_simplify_scan ::
  "env \<Rightarrow> BaseUnit \<Rightarrow> BaseUnit list \<Rightarrow> nat \<Rightarrow> real
     \<Rightarrow> (error + BaseUnit \<times> BaseUnit list \<times> bool \<times> real) option" where
  "legacy_simplify_scan e u remaining i modifier =
     (if i < length remaining then
        (if can_convert (base_times u (remaining ! i)) then
           (if unit_mod e u = 0 then Some (Inl ZeroDivisionError)
            else Some (Inr (u, pop i remaining, True,
                   modifier * (unit_mod e (remaining ! i) / unit_mod e u))))
         else if can_convert (base_over u (remaining ! i)) then
           (if unit_mod e (remaining ! i) * unit_mod e u = 0 then Some (Inl ZeroDivisionError)
            else legacy_simplify_scan e (u\<lparr>expn := expn u + expn (remaining ! i)\<rparr>)
                   (pop i remaining) i
                   (modifier / (unit_mod e (remaining ! i) * unit_mod e u)))
         else legacy_simplify_scan e u remaining (i + 1) modifier)
      else Some (Inr (u, remaining, False, modifier)))"

partial_function (option) legacy_simplify_loop ::
  "env \<Rightarrow> BaseUnit list \<Rightarrow> BaseUnit list \<Rightarrow> real
     \<Rightarrow> (error + BaseUnit list \<times> real) option" where
  "legacy_simplify_loop e remaining keep modifier =
     (if 0 < length remaining then
        (case legacy_simplify_scan e (hd remaining) (tl remaining) 0 modifier of
           None \<Rightarrow> None
         | Some (Inl err) \<Rightarrow> Some (Inl err)
         | Some (Inr (u, rest, canceled, modifier')) \<Rightarrow>
             legacy_simplify_loop e rest (if \<not> canceled then keep @ [u] else keep) modifier')
      else Some (Inr (keep, modifier)))"

definition legacy_simplify :: "env \<Rightarrow> Units \<Rightarrow> (error + Units \<times> real) option" where
  "legacy_simplify e self =
     (case legacy_simplify_loop e (base_units self) [] 1 of
        None \<Rightarrow> None
      | Some (Inl err) \<Rightarrow> Some (Inl err)
      | Some (Inr (keep, modifier)) \<Rightarrow> Some (Inr (legacy_Units_of_list [] keep, modifier)))"

section \<open>Objects and aliasing\<close>

text \<open>
  Python lists hold references. To follow what a call does to the objects of its
  receiver, the atomic units live in a store (a list indexed by address) and a unit
  expression's \<^verbatim>\<open>base_units\<close> is a list of addresses. \<^verbatim>\<open>self.base_units.copy()\<close> copies
  the list of addresses, not the objects.
\<close>

type_synonym addr = nat
type_synonym store = "BaseUnit list"

text \<open>
  \<^verbatim>\<open>Units.simplify\<close> on the store, both loops. \<^verbatim>\<open>u.exp += other.exp\<close> writes to the
  object at the address \<open>u\<close>. The result is the final store and the addresses in
  \<^verbatim>\<open>keep\<close>.
\<close>

partial_function (option) store_simplify_scan ::
  "store \<Rightarrow> addr \<Rightarrow> addr list \<Rightarrow> nat \<Rightarrow> (store \<times> addr list \<times> bool) option" where
  "store_simplify_scan st u remaining i =
     (if i < length remaining then
        (if can_convert (base_times (st ! u) (st ! (remaining ! i))) then
           Some (st, pop i remaining, True)
         else if can_convert (base_over (st ! u) (st ! (remaining ! i))) then
           store_simplify_scan
             (st[u := (st ! u)\<lparr>expn := expn (st ! u) + expn (st ! (remaining ! i))\<rparr>])
             u (pop i remaining) i
         else store_simplify_scan st u remaining (i + 1))
      else Some (st, remaining, False))"

partial_function (option) store_simplify_loop ::
  "store \<Rightarrow> addr list \<Rightarrow> addr list \<Rightarrow> (store \<times> addr list) option" where
  "store_simplify_loop st remaining keep =
     (if 0 < length remaining then
        (case store_simplify_scan st (hd remaining) (tl remaining) 0 of
           None \<Rightarrow> None
         | Some (st', rest, canceled) \<Rightarrow>
             store_simplify_loop st' rest (if \<not> canceled then keep @ [hd remaining] else keep))
      else Some (st, keep))"

text \<open>
  The receiver's units after \<^verbatim>\<open>self.simplify()\<close>: its address list is untouched, so
  they are read from the final store.
\<close>

definition receiver_after_simplify :: "store \<Rightarrow> addr list \<Rightarrow> BaseUnit list option" where
  "receiver_after_simplify st self_units =
     map_option (\<lambda>r. map (\<lambda>a. fst r ! a) self_units)
       (store_simplify_loop st self_units [])"

text \<open>
  \<^verbatim>\<open>Units.update_exp\<close> (legacy): it writes to the receiver's own objects and returns
  nothing.
\<close>

definition legacy_store_update_exp :: "store \<Rightarrow> addr list \<Rightarrow> real \<Rightarrow> store" where
  "legacy_store_update_exp st self_units k =
     foldl (\<lambda>s a. s[a := BaseUnit_update_exp (s ! a) k]) st self_units"

text \<open>
  \<^verbatim>\<open>Units.update_exp\<close> (unitkit): \<^verbatim>\<open>self.copy()\<close> allocates a copy of every unit at the
  end of the store, and the copies are updated. The result is the final store and the
  addresses of the new expression.
\<close>

definition store_update_exp :: "store \<Rightarrow> addr list \<Rightarrow> real \<Rightarrow> store \<times> addr list" where
  "store_update_exp st self_units k =
     (let copies = map (\<lambda>a. st ! a) self_units;
          new_units = [length st ..< length st + length copies];
          st' = st @ copies
      in (foldl (\<lambda>s a. s[a := BaseUnit_update_exp (s ! a) k]) st' new_units, new_units))"

section \<open>A small unit table\<close>

text \<open>
  Modelled from the spec: atomic units named in spec sections 3 and 8, for the concrete
  evaluations below. Each has a symbol, a dimension and a magnitude relative to the base
  unit of its dimension. The degree sign of the temperature symbols is written \<open>deg\<close>.
\<close>

definition unit_of :: "string \<Rightarrow> string \<Rightarrow> real \<Rightarrow> real \<Rightarrow> BaseUnit" where
  "unit_of nm dm k mag =
     \<lparr>symbol = nm, dimension = dm, expn = k, magnitude = mag, offset = None\<rparr>"

definition u_m :: "real \<Rightarrow> BaseUnit" where "u_m k = unit_of ''m'' ''length'' k 1"
definition u_cm :: "real \<Rightarrow> BaseUnit" where "u_cm k = unit_of ''cm'' ''length'' k (1 / 100)"
definition u_km :: "real \<Rightarrow> BaseUnit" where "u_km k = unit_of ''km'' ''length'' k 1000"
definition u_s :: "real \<Rightarrow> BaseUnit" where "u_s k = unit_of ''s'' ''time'' k 1"
definition u_g :: "real \<Rightarrow> BaseUnit" where "u_g k = unit_of ''g'' ''mass'' k 1"
definition u_kg :: "real \<Rightarrow> BaseUnit" where "u_kg k = unit_of ''kg'' ''mass'' k 1000"
definition u_mol :: "real \<Rightarrow> BaseUnit" where "u_mol k = unit_of ''mol'' ''substance'' k 1"
definition u_degC :: "real \<Rightarrow> BaseUnit" where "u_degC k = unit_of ''degC'' ''temperature'' k 1"
definition u_degF :: "real \<Rightarrow> BaseUnit" where "u_degF k = unit_of ''degF'' ''temperature'' k (5 / 9)"

text \<open>
  Modelled from the spec: an instance of the missing parts, for the concrete evaluations.
  The table knows the string \<^verbatim>\<open>g/mol\<close>. \<^verbatim>\<open>mod()\<close> is the number by which a quantity is
  multiplied when the unit joins a conversion factor: \<open>1 / magnitude\<close> for exponent 1 and
  \<open>magnitude\<close> for exponent -1. A temperature conversion is one between two single
  temperature units (section 4.3 step 1), and the converter of the pair Celsius,
  Fahrenheit is the affine map of section 8. The float texts are Python's for the
  numbers used below.
\<close>

definition sample_env :: env where
  "sample_env =
     \<lparr>unit_table = (\<lambda>s. if s = ''g/mol'' then (''g/mol'', [u_g 1, u_mol (- 1)]) else (s, [])),
      unit_mod = (\<lambda>u. if expn u = 1 then 1 / magnitude u
                       else if expn u = - 1 then magnitude u else 1),
      to_dimension_base = (\<lambda>u. (u, 1)),
      can_expand = (\<lambda>u. False),
      full_expand = (\<lambda>u. (Units_new, 1)),
      is_temperature_conversion = (\<lambda>S T.
         map dimension (base_units S) = [''temperature'']
         \<and> map dimension (base_units T) = [''temperature'']),
      get_temperature_converter = (\<lambda>S T x.
         if map symbol (base_units S) = [''degC''] \<and> map symbol (base_units T) = [''degF'']
         then x * 9 / 5 + 32 else x),
      float_str = (\<lambda>x. if x = 5 then ''5.0'' else if x = 1234 / 1000 then ''1.234'' else ''1.0''),
      float_pow = (\<lambda>x k. if k = 0 then Inr 1
                          else if x = 0 \<and> k < 0 then Inl ZeroDivisionError
                          else Inr (x powr k))\<rparr>"

text \<open>Quantities and unit expressions used in the concrete evaluations.\<close>

definition v_kg :: Value where
  "v_kg = \<lparr>num = 5, units = Units_of_base (u_kg 1), sigfigs = 1\<rparr>"

definition v_plain :: Value where
  "v_plain = \<lparr>num = 5, units = Units_new, sigfigs = 1\<rparr>"

definition v_zero_kg :: Value where
  "v_zero_kg = \<lparr>num = 0, units = Units_of_base (u_kg 1), sigfigs = 0\<rparr>"

definition v_g :: Value where
  "v_g = \<lparr>num = 2000, units = Units_of_base (u_g 1), sigfigs = 1\<rparr>"




definition v_zero_degC :: Value where
  "v_zero_degC = \<lparr>num = 0, units = Units_of_base (u_degC 1), sigfigs = 0\<rparr>"

definition v_two_m :: Value where
  "v_two_m = \<lparr>num = 2, units = Units_of_list [] [u_m 1], sigfigs = 1\<rparr>"

definition v_len :: Value where
  "v_len = \<lparr>num = 1234 / 1000, units = Units_of_base (u_m 1), sigfigs = 4\<rparr>"

definition v_mass :: Value where
  "v_mass = \<lparr>num = 18, units = Units_of_base (u_g 1), sigfigs = 2\<rparr>"

definition v_amount :: Value where
  "v_amount = \<lparr>num = 100, units = Units_of_base (u_mol 1), sigfigs = 1\<rparr>"

definition mw_water :: Value where
  "mw_water = \<lparr>num = 18, units = Units_parse sample_env (Some ''g/mol''), sigfigs = 2\<rparr>"

definition mw_zero :: Value where
  "mw_zero = \<lparr>num = 0, units = Units_parse sample_env (Some ''g/mol''), sigfigs = 0\<rparr>"

definition lengths_mixed :: Units where
  "lengths_mixed = Units_of_list [] [u_m 1, u_km 2, u_cm 1]"

definition lengths_once :: Units where
  "lengths_once = \<lparr>string = [], base_units = [u_km 2, u_cm 2]\<rparr>"

definition lengths_twice :: Units where
  "lengths_twice = \<lparr>string = [], base_units = [u_km 4]\<rparr>"

definition legacy_lengths_mixed :: Units where
  "legacy_lengths_mixed = legacy_Units_of_list [] [u_m 1, u_km 2, u_cm 1]"

definition legacy_lengths_once :: Units where
  "legacy_lengths_once = \<lparr>string = [], base_units = [u_m 2, u_km 2]\<rparr>"

definition legacy_lengths_twice :: Units where
  "legacy_lengths_twice = \<lparr>string = [], base_units = [u_m 4]\<rparr>"

definition speed_mixed :: Units where
  "speed_mixed = Units_of_list [] [u_m 1, u_cm 1, u_s (- 1)]"

definition speed_once :: Units where
  "speed_once = \<lparr>string = [], base_units = [u_cm 2, u_s (- 1)]\<rparr>"

definition legacy_speed_once :: Units where
  "legacy_speed_once = \<lparr>string = [], base_units = [u_s (- 1), u_cm 2]\<rparr>"

definition r_sum :: Value where
  "r_sum = \<lparr>num = 7, units = Units_of_base (u_kg 1), sigfigs = 1\<rparr>"

definition r_diff :: Value where
  "r_diff = \<lparr>num = 3766 / 1000, units = Units_of_base (u_m 1), sigfigs = 4\<rparr>"

text \<open>The loops evaluate by their defining equations.\<close>

declare simplify_scan.simps [code]
declare simplify_loop.simps [code]
declare store_simplify_scan.simps [code]
declare store_simplify_loop.simps [code]
declare legacy_simplify_scan.simps [code]
declare legacy_simplify_loop.simps [code]

section \<open>Conversion: general facts\<close>

lemma is_unitless_can_convert: "is_unitless U \<Longrightarrow> can_convert U"
  by (simp add: is_unitless_def can_convert_def dimension_sums_def)

lemma resolve_mw_direct:
  "can_convert cu \<Longrightarrow> resolve_mw e cu S T mw = Inr (mw, False)"
  by (simp add: resolve_mw_def)

text \<open>The temperature branch of unitkit: the factor is never built.\<close>

lemma convert_units_temperature:
  "is_temperature_conversion e (units q) T \<Longrightarrow>
   convert_units e q T mw =
     Inr \<lparr>num = get_temperature_converter e (units q) T (num q), units = T, sigfigs = sigfigs q\<rparr>"
  by (simp add: convert_units_def)


text \<open>A conversion keeps the significant figures; unitkit's also carries the target units.\<close>

lemma convert_units_sigfigs:
  "convert_units e q T mw = Inr r \<Longrightarrow> sigfigs r = sigfigs q \<and> units r = T"
  by (auto simp: convert_units_def Let_def split: if_splits sum.splits prod.splits)

lemma legacy_convert_units_sigfigs:
  "legacy_convert_units e q T mw = Inr r \<Longrightarrow> sigfigs r = sigfigs q"
  by (auto simp: legacy_convert_units_def Let_def split: if_splits sum.splits prod.splits)

text \<open>Directly convertible units convert without a molecular weight.\<close>

lemma convert_units_direct_ok:
  "can_convert (Units_div T (units q)) \<Longrightarrow> \<exists>r. convert_units e q T None = Inr r"
  by (simp add: convert_units_def Let_def resolve_mw_direct)

lemma legacy_convert_units_direct_ok:
  "can_convert (Units_div T (units q)) \<Longrightarrow> \<exists>r. legacy_convert_units e q T None = Inr r"
  by (simp add: legacy_convert_units_def Let_def resolve_mw_direct)

text \<open>
  Without a molecular weight the legacy conversion multiplies by a factor, so the
  number 0 stays 0 whatever the units are.
\<close>

lemma legacy_convert_units_zero:
  "legacy_convert_units e q T None = Inr r \<Longrightarrow> num q = 0 \<Longrightarrow> num r = 0"
  by (auto simp: legacy_convert_units_def Let_def Value_mul_def
      split: if_splits sum.splits prod.splits)

section \<open>Simplification: general facts\<close>

text \<open>Popping an index in range shortens the list by one.\<close>

lemma pop_length: "i < length xs \<Longrightarrow> length (pop i xs) = length xs - 1"
  by (simp add: pop_def)

lemma pop_shorter: "i < length xs \<Longrightarrow> length (pop i xs) < length xs"
  by (simp add: pop_def)

text \<open>
  The inner loop of \<^verbatim>\<open>simplify\<close> returns. It never lengthens the list, and it shortens it
  whenever it cancelled or folded a partner.
\<close>

lemma simplify_scan_returns:
  "\<exists>u' rest c. simplify_scan u remaining i = Some (u', rest, c)
     \<and> length rest \<le> length remaining
     \<and> (c \<or> u' \<noteq> u \<longrightarrow> length rest < length remaining)"
proof (induction "length remaining - i" arbitrary: u remaining i rule: less_induct)
  case less
  show ?case
  proof (cases "i < length remaining")
    case False
    then show ?thesis by (auto simp: simplify_scan.simps [of u remaining i])
  next
    case inr: True
    show ?thesis
    proof (cases "can_convert (base_times u (remaining ! i))")
      case True
      with inr pop_shorter [OF inr] show ?thesis
        by (subst simplify_scan.simps) auto
    next
      case nocancel: False
      show ?thesis
      proof (cases "can_convert (base_over u (remaining ! i))")
        case True
        let ?u = "u\<lparr>expn := expn u + expn (remaining ! i)\<rparr>"
        have "length (pop i remaining) - i < length remaining - i"
          using inr by (simp add: pop_length)
        from less [OF this, of ?u]
        obtain u' rest c where
          s: "simplify_scan ?u (pop i remaining) i = Some (u', rest, c)"
          and l: "length rest \<le> length (pop i remaining)"
          by blast
        have "length rest < length remaining"
          using l inr by (simp add: pop_length)
        with s inr nocancel True show ?thesis
          by (simp add: simplify_scan.simps [of u remaining i])
      next
        case False
        have "length remaining - (i + 1) < length remaining - i"
          using inr by simp
        from less [OF this, of u]
        obtain u' rest c where
          s: "simplify_scan u remaining (i + 1) = Some (u', rest, c)"
          and l: "length rest \<le> length remaining"
          and l': "c \<or> u' \<noteq> u \<longrightarrow> length rest < length remaining"
          by blast
        with inr nocancel False show ?thesis
          by (simp add: simplify_scan.simps [of u remaining i])
      qed
    qed
  qed
qed

text \<open>One pass of the outer loop returns with a strictly shorter list.\<close>

lemma simplify_iter_shrinks:
  assumes "remaining \<noteq> []"
  shows "\<exists>rest keep'. simplify_iter (remaining, keep) = Some (rest, keep')
           \<and> length rest < length remaining"
proof -
  obtain u' rest c where
    s: "simplify_scan (hd remaining) (tl remaining) 0 = Some (u', rest, c)"
    and l: "length rest \<le> length (tl remaining)"
    using simplify_scan_returns [of "hd remaining" "tl remaining" 0] by blast
  from assms l have "length rest < length remaining"
    by (cases remaining) simp_all
  with s show ?thesis by (simp add: simplify_iter_def)
qed

text \<open>The outer loop is the iteration of that pass.\<close>

lemma simplify_loop_iter:
  "simplify_loop remaining keep =
     (if 0 < length remaining then
        (case simplify_iter (remaining, keep) of
           None \<Rightarrow> None
         | Some (rest, keep') \<Rightarrow> simplify_loop rest keep')
      else Some keep)"
  by (subst simplify_loop.simps) (simp add: simplify_iter_def split: option.splits)

text \<open>The outer loop returns: induction on the length of the list.\<close>

lemma simplify_loop_returns: "\<exists>keep'. simplify_loop remaining keep = Some keep'"
proof (induction "length remaining" arbitrary: remaining keep rule: less_induct)
  case less
  show ?case
  proof (cases "remaining = []")
    case True
    then show ?thesis by (subst simplify_loop.simps) simp
  next
    case False
    from simplify_iter_shrinks [OF False, of keep]
    obtain rest keep' where
      s: "simplify_iter (remaining, keep) = Some (rest, keep')"
      and l: "length rest < length remaining"
      by blast
    from less [OF l, of keep'] obtain k where "simplify_loop rest keep' = Some k" by blast
    with s False show ?thesis
      by (subst simplify_loop_iter) simp
  qed
qed

text \<open>The same for the legacy loops, where a pass may also end in an exception.\<close>

lemma legacy_simplify_scan_returns:
  "\<exists>res. legacy_simplify_scan e u remaining i m = Some res
     \<and> (\<forall>u' rest c m'. res = Inr (u', rest, c, m') \<longrightarrow> length rest \<le> length remaining)"
proof (induction "length remaining - i" arbitrary: u remaining i m rule: less_induct)
  case less
  show ?case
  proof (cases "i < length remaining")
    case False
    then show ?thesis by (subst legacy_simplify_scan.simps) simp
  next
    case inr: True
    show ?thesis
    proof (cases "can_convert (base_times u (remaining ! i))")
      case True
      with inr pop_shorter [OF inr] show ?thesis
        by (subst legacy_simplify_scan.simps) simp
    next
      case nocancel: False
      show ?thesis
      proof (cases "can_convert (base_over u (remaining ! i))")
        case fold: True
        show ?thesis
        proof (cases "unit_mod e (remaining ! i) * unit_mod e u = 0")
          case True
          with inr nocancel fold show ?thesis
            by (subst legacy_simplify_scan.simps) simp
        next
          case False
          let ?u = "u\<lparr>expn := expn u + expn (remaining ! i)\<rparr>"
          let ?m = "m / (unit_mod e (remaining ! i) * unit_mod e u)"
          have "length (pop i remaining) - i < length remaining - i"
            using inr by (simp add: pop_length)
          from less [where u = "?u" and m = "?m", OF this]
          obtain res where
            s: "legacy_simplify_scan e ?u (pop i remaining) i ?m = Some res"
            and l: "\<forall>u' rest c m'. res = Inr (u', rest, c, m') \<longrightarrow>
                      length rest \<le> length (pop i remaining)"
            by blast
          have l': "\<forall>u' rest c m'. res = Inr (u', rest, c, m') \<longrightarrow>
                      length rest \<le> length remaining"
            using l pop_shorter [OF inr] by (metis le_trans less_imp_le)
          have "legacy_simplify_scan e u remaining i m = Some res"
            using inr nocancel fold False s by (subst legacy_simplify_scan.simps) simp
          with l' show ?thesis by blast
        qed
      next
        case False
        have "length remaining - (i + 1) < length remaining - i"
          using inr by simp
        from less [where u = u and m = m, OF this]
        obtain res where
          s: "legacy_simplify_scan e u remaining (i + 1) m = Some res"
          and l: "\<forall>u' rest c m'. res = Inr (u', rest, c, m') \<longrightarrow>
                    length rest \<le> length remaining"
          by blast
        have "legacy_simplify_scan e u remaining i m = Some res"
          using inr nocancel False s by (subst legacy_simplify_scan.simps) simp
        with l show ?thesis by blast
      qed
    qed
  qed
qed

lemma legacy_simplify_loop_returns:
  "\<exists>res. legacy_simplify_loop e remaining keep m = Some res"
proof (induction "length remaining" arbitrary: remaining keep m rule: less_induct)
  case less
  show ?case
  proof (cases "remaining = []")
    case True
    then show ?thesis by (subst legacy_simplify_loop.simps) simp
  next
    case False
    obtain res where
      s: "legacy_simplify_scan e (hd remaining) (tl remaining) 0 m = Some res"
      and l: "\<forall>u' rest c m'. res = Inr (u', rest, c, m') \<longrightarrow> length rest \<le> length (tl remaining)"
      using legacy_simplify_scan_returns [of e "hd remaining" "tl remaining" 0 m] by blast
    show ?thesis
    proof (cases res)
      case (Inl err)
      with s False show ?thesis by (subst legacy_simplify_loop.simps) simp
    next
      case (Inr t)
      obtain u' rest c m' where t: "t = (u', rest, c, m')" by (cases t)
      with l Inr have "length rest \<le> length (tl remaining)" by blast
      with False have "length rest < length remaining" by (cases remaining) simp_all
      from less [where keep = "if \<not> c then keep @ [u'] else keep" and m = m', OF this]
      obtain r where "legacy_simplify_loop e rest (if \<not> c then keep @ [u'] else keep) m' = Some r"
        by blast
      with s Inr t False show ?thesis by (subst legacy_simplify_loop.simps) simp
    qed
  qed
qed

text \<open>On a list without partners the scan changes nothing and the loop keeps every unit.\<close>

lemma simplify_scan_no_partner:
  "list_all (\<lambda>r. \<not> partner u r) (drop i remaining) \<Longrightarrow>
   simplify_scan u remaining i = Some (u, remaining, False)"
proof (induction "length remaining - i" arbitrary: i rule: less_induct)
  case less
  show ?case
  proof (cases "i < length remaining")
    case False
    then show ?thesis by (subst simplify_scan.simps) simp
  next
    case inr: True
    then have d: "drop i remaining = remaining ! i # drop (Suc i) remaining"
      by (simp add: Cons_nth_drop_Suc)
    with less.prems have np: "\<not> partner u (remaining ! i)"
      and rest: "list_all (\<lambda>r. \<not> partner u r) (drop (i + 1) remaining)"
      by simp_all
    have "length remaining - (i + 1) < length remaining - i" using inr by simp
    from less.hyps [OF this rest]
    have "simplify_scan u remaining (i + 1) = Some (u, remaining, False)" .
    with inr np show ?thesis
      by (subst simplify_scan.simps) (simp add: partner_def)
  qed
qed

lemma simplify_loop_no_partner:
  "no_partner remaining \<Longrightarrow> simplify_loop remaining keep = Some (keep @ remaining)"
proof (induction remaining arbitrary: keep)
  case Nil
  then show ?case by (subst simplify_loop.simps) simp
next
  case (Cons u rs)
  then have "simplify_scan u rs 0 = Some (u, rs, False)"
    using simplify_scan_no_partner [of u 0 rs] by simp
  moreover have "simplify_loop rs (keep @ [u]) = Some ((keep @ [u]) @ rs)"
    using Cons by simp
  ultimately show ?case
    by (subst simplify_loop.simps) simp
qed

lemma legacy_simplify_scan_no_partner:
  "list_all (\<lambda>r. \<not> partner u r) (drop i remaining) \<Longrightarrow>
   legacy_simplify_scan e u remaining i m = Some (Inr (u, remaining, False, m))"
proof (induction "length remaining - i" arbitrary: i rule: less_induct)
  case less
  show ?case
  proof (cases "i < length remaining")
    case False
    then show ?thesis by (subst legacy_simplify_scan.simps) simp
  next
    case inr: True
    then have d: "drop i remaining = remaining ! i # drop (Suc i) remaining"
      by (simp add: Cons_nth_drop_Suc)
    with less.prems have np: "\<not> partner u (remaining ! i)"
      and rest: "list_all (\<lambda>r. \<not> partner u r) (drop (i + 1) remaining)"
      by simp_all
    have "length remaining - (i + 1) < length remaining - i" using inr by simp
    from less.hyps [OF this rest]
    have "legacy_simplify_scan e u remaining (i + 1) m = Some (Inr (u, remaining, False, m))" .
    with inr np show ?thesis
      by (subst legacy_simplify_scan.simps) (simp add: partner_def)
  qed
qed

lemma legacy_simplify_loop_no_partner:
  "no_partner remaining \<Longrightarrow>
   legacy_simplify_loop e remaining keep m = Some (Inr (keep @ remaining, m))"
proof (induction remaining arbitrary: keep)
  case Nil
  then show ?case by (subst legacy_simplify_loop.simps) simp
next
  case (Cons u rs)
  then have "legacy_simplify_scan e u rs 0 m = Some (Inr (u, rs, False, m))"
    using legacy_simplify_scan_no_partner [of u 0 rs e m] by simp
  moreover have "legacy_simplify_loop e rs (keep @ [u]) m = Some (Inr ((keep @ [u]) @ rs, m))"
    using Cons by simp
  ultimately show ?case
    by (subst legacy_simplify_loop.simps) simp
qed

text \<open>
  A legacy result without partners is a fixed point: the legacy constructor does not
  reorder.
\<close>

lemma legacy_simplify_fixpoint:
  assumes "legacy_simplify e A = Some (Inr (B, m))" and "no_partner (base_units B)"
  shows "legacy_simplify e B = Some (Inr (B, 1))"
proof -
  from assms(1) obtain keep where B: "B = legacy_Units_of_list [] keep"
    by (auto simp: legacy_simplify_def split: option.splits sum.splits)
  have "drop_zero (base_units B) = base_units B"
    unfolding B by (simp add: legacy_Units_of_list_def drop_zero_def)
  moreover have "string B = []" unfolding B by (simp add: legacy_Units_of_list_def)
  ultimately have "legacy_Units_of_list [] (base_units B) = B"
    by (simp add: legacy_Units_of_list_def)
  with legacy_simplify_loop_no_partner [OF assms(2), of e "[]" 1] show ?thesis
    by (simp add: legacy_simplify_def)
qed


section \<open>The constructor: general facts\<close>

text \<open>
  On units of pairwise different symbols \<^verbatim>\<open>_combine_unit_list\<close> merges nothing: it
  returns the truthy units in reverse order.
\<close>

lemma combine_scan_fresh:
  "list_all (\<lambda>r. \<not> same_unit current r) (drop i remaining) \<Longrightarrow>
   combine_scan current remaining i = (Some current, remaining)"
proof (induction "length remaining - i" arbitrary: i rule: less_induct)
  case less
  show ?case
  proof (cases "i < length remaining")
    case False
    then show ?thesis by (subst combine_scan.simps) simp
  next
    case inr: True
    then have d: "drop i remaining = remaining ! i # drop (Suc i) remaining"
      by (simp add: Cons_nth_drop_Suc)
    with less.prems have np: "\<not> same_unit current (remaining ! i)"
      and rest: "list_all (\<lambda>r. \<not> same_unit current r) (drop (i + 1) remaining)"
      by simp_all
    have "length remaining - (i + 1) < length remaining - i" using inr by simp
    from less.hyps [OF this rest]
    have "combine_scan current remaining (i + 1) = (Some current, remaining)" .
    with inr np show ?thesis
      by (subst combine_scan.simps) simp
  qed
qed

lemma combine_loop_distinct:
  "distinct (map symbol xs) \<Longrightarrow>
   combine_loop xs combined = combined @ drop_zero (rev xs)"
proof (induction xs arbitrary: combined rule: rev_induct)
  case Nil
  then show ?case by (subst combine_loop.simps) (simp add: drop_zero_def)
next
  case (snoc x xs)
  then have fresh: "list_all (\<lambda>r. \<not> same_unit x r) (drop 0 xs)"
    by (auto simp: list_all_iff same_unit_def)
  have scan: "combine_scan x xs 0 = (Some x, xs)"
    using combine_scan_fresh [OF fresh] .
  have d: "distinct (map symbol xs)" using snoc.prems by simp
  show ?case
    by (subst combine_loop.simps) (simp add: scan snoc.IH [OF d] truthy_def drop_zero_def)
qed

text \<open>A mapping read from a list of distinct keys does not depend on the order.\<close>

lemma map_of_rev_distinct: "distinct (map fst xs) \<Longrightarrow> map_of (rev xs) = map_of xs"
proof -
  assume d: "distinct (map fst xs)"
  have "distinct (rev (map fst xs))" using d by (simp only: distinct_rev)
  then have d': "distinct (map fst (rev xs))" by (simp only: rev_map)
  have "set (rev xs) = set xs" by simp
  with map_of_inject_set [OF d' d] show ?thesis by blast
qed

text \<open>
  What the scan of \<^verbatim>\<open>_combine_unit_list\<close> leaves: units of the list it was given, the
  first \<open>i\<close> of them untouched; a unit it returns has the symbol it started with, and
  no unit from index \<open>i\<close> on has that symbol.
\<close>

lemma pop_subset: "set (pop i r) \<subseteq> set r"
  by (auto simp: pop_def dest: in_set_takeD in_set_dropD)

lemma take_pop: "take i (pop i r) = take i r"
  by (simp add: pop_def min_def)

lemma combine_scan_symbols:
  "combine_scan c r i = (res, rest) \<Longrightarrow>
   set rest \<subseteq> set r \<and> take i rest = take i r
   \<and> (\<forall>c'. res = Some c' \<longrightarrow>
        symbol c' = symbol c \<and> (\<forall>x \<in> set (drop i rest). symbol x \<noteq> symbol c))"
proof (induction c r i arbitrary: res rest rule: combine_scan.induct)
  case (1 c r i)
  show ?case
  proof (cases "i < length r")
    case False
    with "1.prems" show ?thesis by (auto simp: combine_scan.simps [of c r i])
  next
    case inr: True
    show ?thesis
    proof (cases "same_unit c (r ! i)")
      case False
      with inr "1.prems" have s: "combine_scan c r (i + 1) = (res, rest)"
        by (simp add: combine_scan.simps [of c r i])
      from "1.IH"(2) [OF inr False s]
      have a: "set rest \<subseteq> set r"
        and t: "take (i + 1) rest = take (i + 1) r"
        and b: "\<forall>c'. res = Some c' \<longrightarrow>
          symbol c' = symbol c \<and> (\<forall>x \<in> set (drop (i + 1) rest). symbol x \<noteq> symbol c)"
        by blast+
      from t have "length (take (i + 1) rest) = length (take (i + 1) r)" by simp
      with inr have inrest: "i < length rest" by simp
      have "rest ! i = take (i + 1) rest ! i" by simp
      also have "\<dots> = r ! i" using t by simp
      finally have ri: "rest ! i = r ! i" .
      have "take i rest = take i (take (i + 1) rest)" by simp
      also have "\<dots> = take i (take (i + 1) r)" by (simp only: t)
      also have "\<dots> = take i r" by simp
      finally have ti: "take i rest = take i r" .
      have d: "drop i rest = rest ! i # drop (i + 1) rest"
        using inrest by (simp add: Cons_nth_drop_Suc)
      from False ri have ne: "symbol (rest ! i) \<noteq> symbol c"
        by (simp add: same_unit_def)
      have third: "\<forall>c'. res = Some c' \<longrightarrow>
          symbol c' = symbol c \<and> (\<forall>x \<in> set (drop i rest). symbol x \<noteq> symbol c)"
      proof (intro allI impI)
        fix c' assume "res = Some c'"
        with b have b1: "symbol c' = symbol c"
          and b2: "\<forall>x \<in> set (drop (i + 1) rest). symbol x \<noteq> symbol c"
          by blast+
        have "\<forall>x \<in> set (rest ! i # drop (i + 1) rest). symbol x \<noteq> symbol c"
          using ne b2 by simp
        then have "\<forall>x \<in> set (drop i rest). symbol x \<noteq> symbol c"
          by (simp only: d)
        with b1 show "symbol c' = symbol c \<and> (\<forall>x \<in> set (drop i rest). symbol x \<noteq> symbol c)"
          by (rule conjI)
      qed
      from a ti third show ?thesis by (intro conjI)
    next
      case same: True
      show ?thesis
      proof (cases "BaseUnit_mul c (r ! i)")
        case None
        with inr same "1.prems" have "res = None" and "rest = pop i r"
          by (simp_all add: combine_scan.simps [of c r i])
        with pop_subset [of i r] take_pop [of i r] show ?thesis
          by simp
      next
        case (Some c2)
        with inr same "1.prems" have s: "combine_scan c2 (pop i r) i = (res, rest)"
          by (simp add: combine_scan.simps [of c r i])
        have sy: "symbol c2 = symbol c"
          using Some by (auto simp: BaseUnit_mul_def split: if_splits)
        from "1.IH"(1) [OF inr same Some s]
        have a: "set rest \<subseteq> set (pop i r)"
          and t: "take i rest = take i (pop i r)"
          and b: "\<forall>c'. res = Some c' \<longrightarrow>
            symbol c' = symbol c2 \<and> (\<forall>x \<in> set (drop i rest). symbol x \<noteq> symbol c2)"
          by blast+
        from a pop_subset [of i r] have a': "set rest \<subseteq> set r" by (rule subset_trans)
        from t have t': "take i rest = take i r" by (simp only: take_pop)
        from b have b': "\<forall>c'. res = Some c' \<longrightarrow>
            symbol c' = symbol c \<and> (\<forall>x \<in> set (drop i rest). symbol x \<noteq> symbol c)"
          by (simp only: sy)
        from a' t' b' show ?thesis by (intro conjI)
      qed
    qed
  qed
qed

text \<open>So the combined list holds every symbol at most once.\<close>

lemma combine_loop_symbols:
  "distinct (map symbol combined) \<Longrightarrow>
   (\<forall>x \<in> set combined. \<forall>y \<in> set remaining. symbol x \<noteq> symbol y) \<Longrightarrow>
   distinct (map symbol (combine_loop remaining combined))"
proof (induction remaining combined rule: combine_loop.induct)
  case (1 remaining combined)
  show ?case
  proof (cases "0 < length remaining")
    case False
    with "1.prems" show ?thesis by (subst combine_loop.simps) simp
  next
    case pos: True
    obtain current rest where
      s: "combine_scan (last remaining) (butlast remaining) 0 = (current, rest)"
      by (cases "combine_scan (last remaining) (butlast remaining) 0")
    let ?combined = "if truthy current then combined @ [the current] else combined"
    from combine_scan_symbols [OF s]
    have sub: "set rest \<subseteq> set (butlast remaining)"
      and sym0: "\<forall>c'. current = Some c' \<longrightarrow>
        symbol c' = symbol (last remaining)
        \<and> (\<forall>x \<in> set (drop 0 rest). symbol x \<noteq> symbol (last remaining))"
      by blast+
    from sym0 have sym: "\<forall>c'. current = Some c' \<longrightarrow>
        symbol c' = symbol (last remaining) \<and> (\<forall>x \<in> set rest. symbol x \<noteq> symbol (last remaining))"
      by (simp only: drop_0)
    have sub': "set rest \<subseteq> set remaining"
      using sub by (meson in_set_butlastD subset_iff)
    have lastin: "last remaining \<in> set remaining"
      using pos by simp
    have d: "distinct (map symbol ?combined)"
    proof (cases "truthy current")
      case False
      with "1.prems"(1) show ?thesis by simp
    next
      case True
      then obtain c' where c': "current = Some c'"
        by (auto simp: truthy_def split: option.splits)
      with sym have sc: "symbol c' = symbol (last remaining)" by blast
      have "symbol (last remaining) \<notin> symbol ` set combined"
        using "1.prems"(2) lastin by (metis imageE)
      with "1.prems"(1) True c' sc show ?thesis by simp
    qed
    have f: "\<forall>x \<in> set ?combined. \<forall>y \<in> set rest. symbol x \<noteq> symbol y"
    proof (cases "truthy current")
      case False
      have "\<forall>x \<in> set combined. \<forall>y \<in> set rest. symbol x \<noteq> symbol y"
        using "1.prems"(2) sub' by (metis subsetD)
      with False show ?thesis by simp
    next
      case True
      then obtain c' where c': "current = Some c'"
        by (auto simp: truthy_def split: option.splits)
      with sym have sc: "symbol c' = symbol (last remaining)"
        and fresh: "\<forall>x \<in> set rest. symbol x \<noteq> symbol (last remaining)"
        by blast+
      have old: "\<forall>x \<in> set combined. \<forall>y \<in> set rest. symbol x \<noteq> symbol y"
        using "1.prems"(2) sub' by (metis subsetD)
      have new: "\<forall>y \<in> set rest. symbol c' \<noteq> symbol y"
        using fresh sc by (metis)
      from old new True c' show ?thesis by simp
    qed
    from "1.IH" [OF pos s [symmetric] d f]
    have "distinct (map symbol (combine_loop rest ?combined))" .
    with pos s show ?thesis
      by (simp add: combine_loop.simps [of remaining combined])
  qed
qed

lemma Units_of_list_distinct: "distinct (map symbol (base_units (Units_of_list str us)))"
proof -
  have "distinct (map symbol (combine_unit_list us))"
    unfolding combine_unit_list_def by (rule combine_loop_symbols) simp_all
  then show ?thesis
    by (simp add: Units_of_list_def drop_zero_def distinct_map_filter)
qed

lemma Units_of_list_nonzero: "list_all (\<lambda>u. expn u \<noteq> 0) (base_units (Units_of_list str us))"
  by (simp add: Units_of_list_def drop_zero_def list_all_iff)

lemma drop_zero_id: "list_all (\<lambda>u. expn u \<noteq> 0) us \<Longrightarrow> drop_zero us = us"
  by (simp add: drop_zero_def list_all_iff)

text \<open>The cases of the molecular-weight block when the ratio is not convertible.\<close>

lemma resolve_mw_cases:
  assumes "\<not> can_convert ratio"
  shows "resolve_mw e ratio S T mw =
     (if bridge_inverted e ratio then
        (case mw of None \<Rightarrow> Inl NeedsMolecularWeight
         | Some m \<Rightarrow> if num m = 0 then Inl ZeroDivisionError
                     else Inr (Some \<lparr>num = 1 / num m, units = Units_invert (units m), sigfigs = sigfigs m\<rparr>, True))
      else if bridge_direct e ratio then
        (case mw of None \<Rightarrow> Inl NeedsMolecularWeight | Some m \<Rightarrow> Inr (Some m, True))
      else Inl (CantConvert S T))"
  using assms
  by (simp add: resolve_mw_def bridge_inverted_def bridge_direct_def Let_def
      Value_rtruediv_def split: option.splits)

text \<open>The additive operators take the smaller count of significant figures.\<close>

lemma Value_add_sigfigs:
  "Value_add e a input = Inr r \<Longrightarrow>
   sigfigs r = min (sigfigs a) (sigfigs (fst (ensure_value_input e a input)))"
  by (auto simp: Value_add_def split: sum.splits dest: convert_units_sigfigs)

lemma Value_sub_sigfigs:
  "Value_sub e a input = Inr r \<Longrightarrow>
   sigfigs r = min (sigfigs a) (sigfigs (fst (ensure_value_input e a input)))"
  by (auto simp: Value_sub_def split: sum.splits dest: convert_units_sigfigs)

lemma ensure_Quantity: "fst (ensure_value_input e a (Quantity b)) = b"
  by (simp add: ensure_value_input_def)


section \<open>Zero exponents: general facts\<close>

text \<open>On a list of atomic units the constructor for mixed lists is the one for plain lists.\<close>

lemma item_bases_Base: "item_bases (map Base us) = Some us"
  by (induction us) simp_all

lemma flatten_Base: "flatten_unit_list (map Base us) = map Base us"
  by (induction us) simp_all

lemma Units_of_items_Base: "Units_of_items str (map Base us) = Inr (Units_of_list str us)"
  by (simp add: Units_of_items_def flatten_Base item_bases_Base)

text \<open>
  The constructors, the product, the quotient, the inverse, \<^verbatim>\<open>simplify\<close> and \<^verbatim>\<open>expand_all\<close>
  return expressions without zero exponents; \<^verbatim>\<open>update_exp\<close> does so for a factor other than
  0, and never for the factor 0 on an expression that has units.
\<close>

lemma no_zero_parse: "no_zero (Units_parse e s)"
  by (simp add: no_zero_def Units_parse_def drop_zero_def list_all_iff split: prod.splits)

lemma no_zero_of_list: "no_zero (Units_of_list str us)"
  by (simp add: no_zero_def Units_of_list_def drop_zero_def list_all_iff)

lemma no_zero_of_items: "Units_of_items str xs = Inr U \<Longrightarrow> no_zero U"
  by (auto simp: Units_of_items_def no_zero_of_list split: option.splits)

lemma no_zero_mul: "no_zero B \<Longrightarrow> no_zero (Units_mul A B)"
  by (auto simp: no_zero_def Units_mul_def Units_new_def drop_zero_def list_all_iff truthy_def
      split: option.splits)

lemma no_zero_invert: "no_zero A \<Longrightarrow> no_zero (Units_invert A)"
  by (simp add: no_zero_def Units_invert_def Units_copy_def Units_of_list_def
      combine_unit_list_def combine_loop.simps [of "[]"] drop_zero_def
      BaseUnit_update_exp_def list_all_iff)

lemma no_zero_div: "no_zero B \<Longrightarrow> no_zero (Units_div A B)"
  by (simp add: Units_div_def no_zero_mul no_zero_invert)

lemma no_zero_simplify: "simplify A = Some B \<Longrightarrow> no_zero B"
  by (auto simp: simplify_def no_zero_of_list)

lemma no_zero_expand_all: "no_zero (fst (expand_all e A))"
  by (simp add: expand_all_def no_zero_of_list split: prod.splits)

lemma no_zero_update_exp:
  "k \<noteq> 0 \<Longrightarrow> no_zero A \<Longrightarrow> no_zero (Units_update_exp A k)"
  by (simp add: no_zero_def Units_update_exp_def Units_copy_def Units_of_list_def
      combine_unit_list_def combine_loop.simps [of "[]"] drop_zero_def
      BaseUnit_update_exp_def list_all_iff)

lemma update_exp_by_zero_breaks_no_zero:
  "base_units A \<noteq> [] \<Longrightarrow> \<not> no_zero (Units_update_exp A 0)"
  by (cases "base_units A")
     (simp_all add: no_zero_def Units_update_exp_def Units_copy_def Units_of_list_def
      combine_unit_list_def combine_loop.simps [of "[]"] drop_zero_def
      BaseUnit_update_exp_def)

section \<open>Objects and aliasing: general facts\<close>

text \<open>
  The loops on the store compute what the loops on values compute, for a receiver whose
  addresses are distinct and in range; the scan writes to no object but \<open>u\<close>.
\<close>

lemma pop_map: "pop i (map f xs) = map f (pop i xs)"
  by (simp add: pop_def take_map drop_map)

lemma map_nth_update_other: "u \<notin> set xs \<Longrightarrow> map ((!) (st[u := v])) xs = map ((!) st) xs"
  by (induction xs) auto

lemma store_simplify_scan_refines:
  assumes "u < length st" and "u \<notin> set remaining"
    and "store_simplify_scan st u remaining i = Some (st', rest, c)"
  shows "simplify_scan (st ! u) (map ((!) st) remaining) i = Some (st' ! u, map ((!) st') rest, c)
       \<and> set rest \<subseteq> set remaining \<and> length st' = length st
       \<and> (\<forall>a. a \<noteq> u \<longrightarrow> st' ! a = st ! a)"
  using assms
proof (induction "length remaining - i" arbitrary: st remaining i rule: less_induct)
  case less
  show ?case
  proof (cases "i < length remaining")
    case False
    with less.prems(3) have "st' = st" "rest = remaining" "c = False"
      by (simp_all add: store_simplify_scan.simps [of st u remaining i])
    with False show ?thesis
      by (subst simplify_scan.simps) simp
  next
    case inr: True
    then have nth: "map ((!) st) remaining ! i = st ! (remaining ! i)" by simp
    show ?thesis
    proof (cases "can_convert (base_times (st ! u) (st ! (remaining ! i)))")
      case True
      with inr less.prems(3) have "st' = st" "rest = pop i remaining" "c = True"
        by (simp_all add: store_simplify_scan.simps [of st u remaining i])
      with inr True nth pop_subset [of i remaining] show ?thesis
        by (subst simplify_scan.simps) (simp add: pop_map)
    next
      case nocancel: False
      show ?thesis
      proof (cases "can_convert (base_over (st ! u) (st ! (remaining ! i)))")
        case fold: True
        let ?v = "(st ! u)\<lparr>expn := expn (st ! u) + expn (st ! (remaining ! i))\<rparr>"
        let ?st = "st[u := ?v]"
        let ?rem = "pop i remaining"
        from inr nocancel fold less.prems(3)
        have s: "store_simplify_scan ?st u ?rem i = Some (st', rest, c)"
          by (simp add: store_simplify_scan.simps [of st u remaining i])
        have m: "length ?rem - i < length remaining - i"
          using inr by (simp add: pop_length)
        have u1: "u < length ?st" using less.prems(1) by simp
        have u2: "u \<notin> set ?rem" using less.prems(2) pop_subset [of i remaining] by blast
        from less.hyps [OF m u1 u2 s]
        have a: "simplify_scan (?st ! u) (map ((!) ?st) ?rem) i
                   = Some (st' ! u, map ((!) st') rest, c)"
          and b: "set rest \<subseteq> set ?rem"
          and l: "length st' = length ?st"
          and f: "\<forall>a. a \<noteq> u \<longrightarrow> st' ! a = ?st ! a"
          by blast+
        have v: "?st ! u = ?v" using less.prems(1) by simp
        have mp: "map ((!) ?st) ?rem = pop i (map ((!) st) remaining)"
          using map_nth_update_other [OF u2] by (simp add: pop_map)
        have pure: "simplify_scan (st ! u) (map ((!) st) remaining) i
                   = Some (st' ! u, map ((!) st') rest, c)"
          using inr nocancel fold nth a v mp
          by (subst simplify_scan.simps) simp
        have f': "\<forall>a. a \<noteq> u \<longrightarrow> st' ! a = st ! a"
          using f by simp
        from b pop_subset [of i remaining] have b': "set rest \<subseteq> set remaining" by blast
        from pure b' l f' show ?thesis by simp
      next
        case False
        from inr nocancel False less.prems(3)
        have s: "store_simplify_scan st u remaining (i + 1) = Some (st', rest, c)"
          by (simp add: store_simplify_scan.simps [of st u remaining i])
        have m: "length remaining - (i + 1) < length remaining - i"
          using inr by simp
        from less.hyps [OF m less.prems(1) less.prems(2) s]
        have a: "simplify_scan (st ! u) (map ((!) st) remaining) (i + 1)
                   = Some (st' ! u, map ((!) st') rest, c)"
          and rest: "set rest \<subseteq> set remaining \<and> length st' = length st
                     \<and> (\<forall>a. a \<noteq> u \<longrightarrow> st' ! a = st ! a)"
          by blast+
        have "simplify_scan (st ! u) (map ((!) st) remaining) i
                   = Some (st' ! u, map ((!) st') rest, c)"
          using inr nocancel False nth a
          by (subst simplify_scan.simps) simp
        with rest show ?thesis by simp
      qed
    qed
  qed
qed

lemma distinct_pop: "distinct xs \<Longrightarrow> distinct (pop i xs)"
proof -
  assume d: "distinct xs"
  have "set (take i xs) \<inter> set (drop (Suc i) xs) = {}"
  proof -
    have "set (take i xs) \<inter> set (drop i xs) = {}"
      using d by (metis append_take_drop_id distinct_append)
    moreover have "set (drop (Suc i) xs) \<subseteq> set (drop i xs)"
      by (metis Suc_n_not_le_n nat_le_linear set_drop_subset_set_drop)
    ultimately show ?thesis by blast
  qed
  with d show ?thesis by (simp add: pop_def)
qed

lemma store_simplify_scan_distinct:
  "distinct remaining \<Longrightarrow> store_simplify_scan st u remaining i = Some (st', rest, c) \<Longrightarrow>
   distinct rest"
proof (induction "length remaining - i" arbitrary: st remaining i rule: less_induct)
  case less
  show ?case
  proof (cases "i < length remaining")
    case False
    with less.prems show ?thesis
      by (simp add: store_simplify_scan.simps [of st u remaining i])
  next
    case inr: True
    have m1: "length (pop i remaining) - i < length remaining - i"
      using inr by (simp add: pop_length)
    have m2: "length remaining - (i + 1) < length remaining - i"
      using inr by simp
    note dp = distinct_pop [OF less.prems(1), of i]
    show ?thesis
    proof (cases "can_convert (base_times (st ! u) (st ! (remaining ! i)))")
      case True
      with inr less.prems(2) dp show ?thesis
        by (simp add: store_simplify_scan.simps [of st u remaining i])
    next
      case nocancel: False
      show ?thesis
      proof (cases "can_convert (base_over (st ! u) (st ! (remaining ! i)))")
        case True
        with inr nocancel less.prems(2)
        have "store_simplify_scan
                (st[u := (st ! u)\<lparr>expn := expn (st ! u) + expn (st ! (remaining ! i))\<rparr>])
                u (pop i remaining) i = Some (st', rest, c)"
          by (simp add: store_simplify_scan.simps [of st u remaining i])
        from less.hyps [OF m1 dp this] show ?thesis .
      next
        case False
        with inr nocancel less.prems(2)
        have "store_simplify_scan st u remaining (i + 1) = Some (st', rest, c)"
          by (simp add: store_simplify_scan.simps [of st u remaining i])
        from less.hyps [OF m2 less.prems(1) this] show ?thesis .
      qed
    qed
  qed
qed

lemma map_nth_frame: "\<forall>a \<in> set xs. st' ! a = st ! a \<Longrightarrow> map ((!) st') xs = map ((!) st) xs"
  by (induction xs) auto

lemma store_simplify_loop_refines:
  assumes "distinct remaining" and "set remaining \<inter> set keep = {}"
    and "\<forall>a \<in> set remaining. a < length st"
    and "store_simplify_loop st remaining keep = Some (st', keep')"
  shows "simplify_loop (map ((!) st) remaining) (map ((!) st) keep) = Some (map ((!) st') keep')
       \<and> length st' = length st
       \<and> (\<forall>a. a \<notin> set remaining \<longrightarrow> st' ! a = st ! a)"
  using assms
proof (induction "length remaining" arbitrary: st remaining keep rule: less_induct)
  case less
  show ?case
  proof (cases remaining)
    case Nil
    with less.prems(4) have "st' = st" "keep' = keep"
      by (simp_all add: store_simplify_loop.simps [of st "[]" keep])
    with Nil show ?thesis
      by (subst simplify_loop.simps) simp
  next
    case (Cons u rs)
    from less.prems(1,3) Cons have u1: "u < length st" and u2: "u \<notin> set rs"
      and drs: "distinct rs"
      by simp_all
    from less.prems(2) Cons have uk: "u \<notin> set keep" by auto
    obtain st1 rest c where
      scan: "store_simplify_scan st u rs 0 = Some (st1, rest, c)"
      and loop: "store_simplify_loop st1 rest (if \<not> c then keep @ [u] else keep) = Some (st', keep')"
      using less.prems(4) Cons
      by (simp add: store_simplify_loop.simps [of st "u # rs" keep]
          split: option.splits prod.splits cong: if_cong)
    let ?keep = "if \<not> c then keep @ [u] else keep"
    from store_simplify_scan_refines [OF u1 u2 scan]
    have pure: "simplify_scan (st ! u) (map ((!) st) rs) 0 = Some (st1 ! u, map ((!) st1) rest, c)"
      and sub: "set rest \<subseteq> set rs"
      and len1: "length st1 = length st"
      and frame1: "\<forall>a. a \<noteq> u \<longrightarrow> st1 ! a = st ! a"
      by blast+
    have drest: "distinct rest"
      using store_simplify_scan_distinct [OF drs scan] .
    have lt: "length rest < length remaining"
    proof -
      have "card (set rest) \<le> card (set rs)"
        using sub by (simp add: card_mono)
      with drest drs have "length rest \<le> length rs"
        by (simp add: distinct_card)
      with Cons show ?thesis by simp
    qed
    have disj: "set rest \<inter> set ?keep = {}"
      using sub u2 less.prems(2) Cons by auto
    have inb: "\<forall>a \<in> set rest. a < length st1"
      using sub less.prems(3) Cons len1 by auto
    from less.hyps [OF lt drest disj inb loop]
    have ih: "simplify_loop (map ((!) st1) rest) (map ((!) st1) ?keep) = Some (map ((!) st') keep')"
      and len2: "length st' = length st1"
      and frame2: "\<forall>a. a \<notin> set rest \<longrightarrow> st' ! a = st1 ! a"
      by blast+
    have k: "map ((!) st1) keep = map ((!) st) keep"
      using frame1 uk by (intro map_nth_frame) (metis)
    have k': "map ((!) st1) ?keep = (if \<not> c then map ((!) st) keep @ [st1 ! u] else map ((!) st) keep)"
      using k by simp
    have "simplify_loop (map ((!) st) remaining) (map ((!) st) keep) = Some (map ((!) st') keep')"
      using Cons pure ih k'
      by (subst simplify_loop.simps) simp
    moreover have "\<forall>a. a \<notin> set remaining \<longrightarrow> st' ! a = st ! a"
    proof (intro allI impI)
      fix a assume "a \<notin> set remaining"
      with Cons have "a \<noteq> u" and "a \<notin> set rs" by simp_all
      with sub have "a \<notin> set rest" by blast
      with frame2 have "st' ! a = st1 ! a" by blast
      also from frame1 \<open>a \<noteq> u\<close> have "\<dots> = st ! a" by blast
      finally show "st' ! a = st ! a" .
    qed
    ultimately show ?thesis using len1 len2 by simp
  qed
qed

text \<open>unitkit's \<^verbatim>\<open>update_exp\<close> writes to the copies only.\<close>

lemma foldl_update_frame:
  "b \<notin> set as \<Longrightarrow> foldl (\<lambda>s a. s[a := f (s ! a)]) st as ! b = st ! b"
  by (induction as arbitrary: st) auto

lemma store_update_exp_keeps_receiver:
  assumes "\<forall>a \<in> set self_units. a < length st"
  shows "map ((!) (fst (store_update_exp st self_units k))) self_units = map ((!) st) self_units"
proof (rule map_ext, rule impI)
  fix b assume b: "b \<in> set self_units"
  with assms have lt: "b < length st" by blast
  then have "b \<notin> set [length st ..< length st + length (map ((!) st) self_units)]"
    by simp
  then have "foldl (\<lambda>s a. s[a := BaseUnit_update_exp (s ! a) k])
               (st @ map ((!) st) self_units)
               [length st ..< length st + length (map ((!) st) self_units)] ! b
             = (st @ map ((!) st) self_units) ! b"
    by (rule foldl_update_frame)
  also have "\<dots> = st ! b" using lt by (simp add: nth_append)
  finally show "fst (store_update_exp st self_units k) ! b = st ! b"
    by (simp add: store_update_exp_def Let_def)
qed

section \<open>Unitless ratios: general facts\<close>






section \<open>Significant figures: general facts\<close>

text \<open>
  The sigfigs of every operator. For add, subtract, multiply and divide between two
  quantities, and for add, subtract and reflected add with a coerced bare number, the
  result's sigfigs are at most the minimum of the two operands' sigfigs (for a bare
  number: those of the quantity it was coerced to). The reflected subtraction with a
  coerced bare number, and multiply, divide and reflected divide with a bare number,
  return the sigfigs of the quantity operand. The legacy add and subtract between two
  quantities also stay within the minimum.
\<close>

lemma sigfigs_of_arithmetic:
  "(Value_add e a (Quantity b) = Inr r \<longrightarrow> sigfigs r \<le> min (sigfigs a) (sigfigs b))
   \<and> (Value_sub e a (Quantity b) = Inr r \<longrightarrow> sigfigs r \<le> min (sigfigs a) (sigfigs b))
   \<and> sigfigs (Value_mul a (Quantity b)) \<le> min (sigfigs a) (sigfigs b)
   \<and> (Value_truediv a (Quantity b) = Inr r \<longrightarrow> sigfigs r \<le> min (sigfigs a) (sigfigs b))
   \<and> (Value_add e a (Number x) = Inr r \<longrightarrow>
        sigfigs r \<le> min (sigfigs a) (sigfigs (fst (ensure_value_input e a (Number x)))))
   \<and> (Value_sub e a (Number x) = Inr r \<longrightarrow>
        sigfigs r \<le> min (sigfigs a) (sigfigs (fst (ensure_value_input e a (Number x)))))
   \<and> (Value_radd e a (Number x) = Inr r \<longrightarrow>
        sigfigs r \<le> min (sigfigs a) (sigfigs (fst (ensure_value_input e a (Number x)))))
   \<and> (Value_rsub e a (Number x) = Inr r \<longrightarrow> sigfigs r = sigfigs a)
   \<and> sigfigs (Value_mul a (Number x)) = sigfigs a
   \<and> (Value_truediv a (Number x) = Inr r \<longrightarrow> sigfigs r = sigfigs a)
   \<and> (Value_rtruediv a (Number x) = Inr r \<longrightarrow> sigfigs r = sigfigs a)
   \<and> (legacy_add e a (Quantity b) = Inr r \<longrightarrow> sigfigs r \<le> min (sigfigs a) (sigfigs b))
   \<and> (legacy_sub e a (Quantity b) = Inr r \<longrightarrow> sigfigs r \<le> min (sigfigs a) (sigfigs b))"
proof -
  have add: "Value_add e a (Quantity b) = Inr r \<longrightarrow> sigfigs r \<le> min (sigfigs a) (sigfigs b)"
    using Value_add_sigfigs [of e a "Quantity b" r] by (simp add: ensure_Quantity)
  have sub: "Value_sub e a (Quantity b) = Inr r \<longrightarrow> sigfigs r \<le> min (sigfigs a) (sigfigs b)"
    using Value_sub_sigfigs [of e a "Quantity b" r] by (simp add: ensure_Quantity)
  have mul: "sigfigs (Value_mul a (Quantity b)) \<le> min (sigfigs a) (sigfigs b)"
    by (simp add: Value_mul_def)
  have dv: "Value_truediv a (Quantity b) = Inr r \<longrightarrow> sigfigs r \<le> min (sigfigs a) (sigfigs b)"
    by (auto simp: Value_truediv_def split: if_splits)
  have addn: "Value_add e a (Number x) = Inr r \<longrightarrow>
        sigfigs r \<le> min (sigfigs a) (sigfigs (fst (ensure_value_input e a (Number x))))"
    using Value_add_sigfigs [of e a "Number x" r] by simp
  have subn: "Value_sub e a (Number x) = Inr r \<longrightarrow>
        sigfigs r \<le> min (sigfigs a) (sigfigs (fst (ensure_value_input e a (Number x))))"
    using Value_sub_sigfigs [of e a "Number x" r] by simp
  have radd: "Value_radd e a (Number x) = Inr r \<longrightarrow>
        sigfigs r \<le> min (sigfigs a) (sigfigs (fst (ensure_value_input e a (Number x))))"
    using Value_add_sigfigs [of e a "Quantity (fst (ensure_value_input e a (Number x)))" r]
    by (simp add: Value_radd_def ensure_Quantity)
  have rsub: "Value_rsub e a (Number x) = Inr r \<longrightarrow> sigfigs r = sigfigs a"
    by (auto simp: Value_rsub_def split: sum.splits)
  have muln: "sigfigs (Value_mul a (Number x)) = sigfigs a"
    by (simp add: Value_mul_def)
  have dvn: "Value_truediv a (Number x) = Inr r \<longrightarrow> sigfigs r = sigfigs a"
    by (auto simp: Value_truediv_def split: if_splits)
  have rdvn: "Value_rtruediv a (Number x) = Inr r \<longrightarrow> sigfigs r = sigfigs a"
    by (auto simp: Value_rtruediv_def split: if_splits)
  have ladd: "legacy_add e a (Quantity b) = Inr r \<longrightarrow> sigfigs r \<le> min (sigfigs a) (sigfigs b)"
    by (auto simp: legacy_add_def split: sum.splits dest: legacy_convert_units_sigfigs)
  have lsub: "legacy_sub e a (Quantity b) = Inr r \<longrightarrow> sigfigs r \<le> min (sigfigs a) (sigfigs b)"
    by (auto simp: legacy_sub_def split: sum.splits dest: legacy_convert_units_sigfigs)
  from add sub mul dv addn subn radd rsub muln dvn rdvn ladd lsub show ?thesis
    by (intro conjI)
qed

lemma sigfigs_of_arithmetic_example:
  "Value_add sample_env v_kg (Quantity v_g) = Inr r_sum
   \<and> sigfigs r_sum \<le> min (sigfigs v_kg) (sigfigs v_g)
   \<and> legacy_add sample_env v_kg (Quantity v_g) = Inr r_sum
   \<and> Value_rsub sample_env v_len (Number 5) = Inr r_diff
   \<and> sigfigs r_diff = sigfigs v_len"
proof -
  have a: "Value_add sample_env v_kg (Quantity v_g) = Inr r_sum" by code_simp
  have b: "legacy_add sample_env v_kg (Quantity v_g) = Inr r_sum" by code_simp
  have c: "Value_rsub sample_env v_len (Number 5) = Inr r_diff" by code_simp
  show ?thesis
    using a b c sigfigs_of_arithmetic [of sample_env v_kg v_g r_sum 5]
      sigfigs_of_arithmetic [of sample_env v_len v_g r_diff 5]
    by simp
qed

section \<open>Simplification of at most two units per dimension: general facts\<close>

text \<open>
  For two units of different symbols the tests \<^verbatim>\<open>can_convert(u * r)\<close> and
  \<^verbatim>\<open>can_convert(u / r)\<close> look at a two-element expression.
\<close>

lemma base_times_units:
  "symbol u \<noteq> symbol r \<Longrightarrow> expn u \<noteq> 0 \<Longrightarrow> base_units (base_times u r) = [u, r]"
  by (simp add: base_times_def Units_mul_base_def Units_new_def drop_zero_def same_unit_def
      unit_in_def truthy_def)

lemma base_over_units:
  "symbol u \<noteq> symbol r \<Longrightarrow> expn u \<noteq> 0 \<Longrightarrow>
   base_units (base_over u r) = [u, BaseUnit_update_exp r (- 1)]"
  by (simp add: base_over_def Units_mul_base_def Units_new_def drop_zero_def same_unit_def
      unit_in_def truthy_def BaseUnit_update_exp_def)

lemma can_convert_pair:
  "base_units U = [a, b] \<Longrightarrow> expn a \<noteq> 0 \<Longrightarrow>
   can_convert U = (dimension a = dimension b \<and> expn a + expn b = 0)"
  by (auto simp: can_convert_def dimension_sums_def)

lemma can_convert_times:
  "symbol u \<noteq> symbol r \<Longrightarrow> expn u \<noteq> 0 \<Longrightarrow>
   can_convert (base_times u r) = (dimension u = dimension r \<and> expn u + expn r = 0)"
  using can_convert_pair [OF base_times_units] by simp

lemma can_convert_over:
  "symbol u \<noteq> symbol r \<Longrightarrow> expn u \<noteq> 0 \<Longrightarrow>
   can_convert (base_over u r) = (dimension u = dimension r \<and> expn u = expn r)"
  using can_convert_pair [OF base_over_units, of u r]
  by (auto simp: BaseUnit_update_exp_def)

lemma partner_cancellable:
  "symbol u \<noteq> symbol r \<Longrightarrow> expn u \<noteq> 0 \<Longrightarrow> partner u r = cancellable u r"
  by (auto simp: partner_def cancellable_def can_convert_times can_convert_over)

lemma cancellable_sym: "cancellable u r = cancellable r u"
  by (auto simp: cancellable_def)

text \<open>Counting the units of a dimension, and popping from a list of distinct symbols.\<close>

lemma dim_count_pop:
  "i < length rs \<Longrightarrow>
   dim_count d (pop i rs) = dim_count d rs - (if dimension (rs ! i) = d then 1 else 0)"
proof -
  assume i: "i < length rs"
  then have "rs = take i rs @ rs ! i # drop (Suc i) rs"
    by (simp add: id_take_nth_drop)
  then have "dim_count d rs = dim_count d (take i rs @ rs ! i # drop (Suc i) rs)" by simp
  also have "\<dots> = dim_count d (pop i rs) + (if dimension (rs ! i) = d then 1 else 0)"
    by (simp add: dim_count_def pop_def)
  finally show ?thesis by simp
qed

lemma dim_count_zero: "dim_count d rs = 0 \<Longrightarrow> y \<in> set rs \<Longrightarrow> dimension y \<noteq> d"
  by (auto simp: dim_count_def filter_empty_conv)

lemma dim_count_pop_le: "dim_count d (pop i rs) \<le> dim_count d rs"
proof (cases "i < length rs")
  case True
  then show ?thesis by (simp add: dim_count_pop)
next
  case False
  then show ?thesis by (simp add: pop_def)
qed

lemma distinct_map_pop: "distinct (map f xs) \<Longrightarrow> distinct (map f (pop i xs))"
proof -
  assume "distinct (map f xs)"
  then have "distinct (pop i (map f xs))" by (rule distinct_pop)
  then show ?thesis by (simp add: pop_map)
qed

lemma dim_count_Cons:
  "dim_count d (u # rs) = (if dimension u = d then 1 else 0) + dim_count d rs"
  by (simp add: dim_count_def)

lemma dim_count_snoc:
  "dim_count d (ks @ [u]) = dim_count d ks + (if dimension u = d then 1 else 0)"
  by (simp add: dim_count_def)

text \<open>
  The scan, when the list holds at most one unit of the dimension of \<open>u\<close>. If it
  folds that unit into \<open>u\<close>, no unit of the dimension is left, so nothing that the scan
  has passed can match the new exponent.
\<close>

lemma simplify_scan_two:
  assumes "\<forall>r \<in> set rs. symbol r \<noteq> symbol u" and "expn u \<noteq> 0"
    and "\<forall>r \<in> set rs. expn r \<noteq> 0" and "dim_count (dimension u) rs \<le> 1"
    and "\<forall>k < i. k < length rs \<longrightarrow> \<not> cancellable u (rs ! k)" and "distinct (map symbol rs)"
  shows "\<exists>u' rest c. simplify_scan u rs i = Some (u', rest, c) \<and> scan_post u rs u' rest c"
  using assms
proof (induction "length rs - i" arbitrary: u rs i rule: less_induct)
  case less
  note sy = less.prems(1) and nz = less.prems(2) and nzr = less.prems(3)
    and cnt = less.prems(4) and pre = less.prems(5) and dist = less.prems(6)
  show ?case
  proof (cases "i < length rs")
    case False
    have all: "\<forall>y \<in> set rs. \<not> cancellable u y"
    proof
      fix y assume "y \<in> set rs"
      then obtain k where k: "k < length rs" "rs ! k = y" by (auto simp: in_set_conv_nth)
      with False have "k < i" by simp
      with pre k show "\<not> cancellable u y" by blast
    qed
    have s: "simplify_scan u rs i = Some (u, rs, False)"
      using False by (subst simplify_scan.simps) simp
    have "scan_post u rs u rs False"
      unfolding scan_post_def using all dist nz by simp
    with s show ?thesis by blast
  next
    case inr: True
    let ?r = "rs ! i"
    have rin: "?r \<in> set rs" using inr by simp
    from sy rin have syr: "symbol u \<noteq> symbol ?r" by metis
    have tm: "can_convert (base_times u ?r) = (dimension u = dimension ?r \<and> expn u + expn ?r = 0)"
      using syr nz by (rule can_convert_times)
    have ov: "can_convert (base_over u ?r) = (dimension u = dimension ?r \<and> expn u = expn ?r)"
      using syr nz by (rule can_convert_over)
    have one: "dimension u = dimension ?r \<Longrightarrow> dim_count (dimension u) rs = 1"
    proof -
      assume "dimension u = dimension ?r"
      then have "?r \<in> set (filter (\<lambda>v. dimension v = dimension u) rs)" using rin by simp
      then have "0 < dim_count (dimension u) rs"
        unfolding dim_count_def by (metis length_pos_if_in_set)
      with cnt show ?thesis by simp
    qed
    show ?thesis
    proof (cases "can_convert (base_times u ?r)")
      case True
      with tm have d: "dimension u = dimension ?r" by simp
      have s: "simplify_scan u rs i = Some (u, pop i rs, True)"
        using inr True by (subst simplify_scan.simps) simp
      have "\<forall>d. dim_count d (pop i rs) \<le> dim_count d rs"
        by (simp add: dim_count_pop_le)
      with pop_subset [of i rs] distinct_map_pop [OF dist, of i] nz one [OF d]
      have "scan_post u rs u (pop i rs) True"
        unfolding scan_post_def by simp
      with s show ?thesis by blast
    next
      case nocancel: False
      show ?thesis
      proof (cases "can_convert (base_over u ?r)")
        case fold: True
        with ov have d: "dimension u = dimension ?r" and ee: "expn u = expn ?r" by simp_all
        let ?u = "u\<lparr>expn := expn u + expn ?r\<rparr>"
        let ?rs = "pop i rs"
        have m: "length ?rs - i < length rs - i" using inr by (simp add: pop_length)
        have sub: "set ?rs \<subseteq> set rs" by (rule pop_subset)
        have c0: "dim_count (dimension u) ?rs = 0"
          using one [OF d] d inr by (simp add: dim_count_pop)
        have p1: "\<forall>r \<in> set ?rs. symbol r \<noteq> symbol ?u"
        proof
          fix r assume "r \<in> set ?rs"
          with sub have "r \<in> set rs" by (rule subsetD)
          with sy have "symbol r \<noteq> symbol u" by (rule bspec)
          then show "symbol r \<noteq> symbol ?u" by simp
        qed
        have p2: "expn ?u \<noteq> 0" using nz ee by simp
        have p3: "\<forall>r \<in> set ?rs. expn r \<noteq> 0"
        proof
          fix r assume "r \<in> set ?rs"
          with sub have "r \<in> set rs" by (rule subsetD)
          with nzr show "expn r \<noteq> 0" by (rule bspec)
        qed
        have p4: "dim_count (dimension ?u) ?rs \<le> 1" using c0 by simp
        have nc: "\<forall>y \<in> set ?rs. \<not> cancellable ?u y"
        proof
          fix y assume "y \<in> set ?rs"
          with c0 have "dimension y \<noteq> dimension u" by (rule dim_count_zero)
          then show "\<not> cancellable ?u y" by (simp add: cancellable_def)
        qed
        have p5: "\<forall>k < i. k < length ?rs \<longrightarrow> \<not> cancellable ?u (?rs ! k)"
        proof (intro allI impI)
          fix k assume "k < length ?rs"
          then have "?rs ! k \<in> set ?rs" by (rule nth_mem)
          with nc show "\<not> cancellable ?u (?rs ! k)" by (rule bspec)
        qed
        have p6: "distinct (map symbol ?rs)" using dist by (rule distinct_map_pop)
        from less.hyps [OF m p1 p2 p3 p4 p5 p6]
        obtain u' rest c where
          s: "simplify_scan ?u ?rs i = Some (u', rest, c)"
          and post: "scan_post ?u ?rs u' rest c"
          by (elim exE conjE)
        have s0: "simplify_scan u rs i = Some (u', rest, c)"
          using inr nocancel fold s by (subst simplify_scan.simps) simp
        from post have r1: "set rest \<subseteq> set ?rs" and r2: "distinct (map symbol rest)"
          and r3: "\<forall>d. dim_count d rest \<le> dim_count d ?rs"
          and r4: "symbol u' = symbol ?u" and r5: "dimension u' = dimension ?u"
          and r6: "expn u' \<noteq> 0"
          and r7: "\<not> c \<longrightarrow> (\<forall>y \<in> set rest. \<not> cancellable u' y)"
          unfolding scan_post_def by simp_all
        have q1: "set rest \<subseteq> set rs" using r1 sub by (rule subset_trans)
        have q3: "\<forall>d. dim_count d rest \<le> dim_count d rs"
        proof
          fix d
          from r3 have "dim_count d rest \<le> dim_count d ?rs" by (rule spec)
          also have "\<dots> \<le> dim_count d rs" by (rule dim_count_pop_le)
          finally show "dim_count d rest \<le> dim_count d rs" .
        qed
        have q4: "symbol u' = symbol u" using r4 by simp
        have q5: "dimension u' = dimension u" using r5 by simp
        have q8: "dim_count (dimension u) rs = 1" using one [OF d] .
        have "scan_post u rs u' rest c"
          unfolding scan_post_def using q1 r2 q3 q4 q5 r6 r7 q8 by simp
        with s0 show ?thesis by blast
      next
        case nofold: False
        have ncr: "\<not> cancellable u ?r"
          using nocancel nofold tm ov by (simp add: cancellable_def)
        have m: "length rs - (i + 1) < length rs - i" using inr by simp
        have p5: "\<forall>k < i + 1. k < length rs \<longrightarrow> \<not> cancellable u (rs ! k)"
        proof (intro allI impI)
          fix k assume "k < i + 1" and kl: "k < length rs"
          then have "k < i \<or> k = i" by auto
          then show "\<not> cancellable u (rs ! k)"
          proof
            assume "k < i" with pre kl show ?thesis by simp
          next
            assume "k = i" with ncr show ?thesis by simp
          qed
        qed
        from less.hyps [OF m sy nz nzr cnt p5 dist]
        obtain u' rest c where
          s: "simplify_scan u rs (i + 1) = Some (u', rest, c)"
          and post: "scan_post u rs u' rest c"
          by (elim exE conjE)
        have "simplify_scan u rs i = Some (u', rest, c)"
          using inr nocancel nofold s by (subst simplify_scan.simps) simp
        with post show ?thesis by blast
      qed
    qed
  qed
qed

lemma simplify_scan_two_fold:
  assumes "simplify_scan u rs i = Some (u', rest, c)"
    and "scan_post u rs u' rest c" and "dim_count (dimension u) rs = 0"
  shows "u' = u \<and> \<not> c"
  using assms unfolding scan_post_def by auto

text \<open>One pass of the outer loop keeps the invariant, and the loop ends in it.\<close>

lemma loop_inv_step:
  assumes inv: "loop_inv (u # rs) keep" and post: "scan_post u rs u' rest c"
  shows "loop_inv rest (if \<not> c then keep @ [u'] else keep)"
proof -
  from inv have d1: "distinct (map symbol ((u # rs) @ keep))"
    and nz1: "\<forall>x \<in> set ((u # rs) @ keep). expn x \<noteq> 0"
    and cnt: "\<forall>d. dim_count d (u # rs) + dim_count d keep \<le> 2"
    and pk: "\<forall>x \<in> set keep. \<forall>y \<in> set keep. symbol x \<noteq> symbol y \<longrightarrow> \<not> cancellable x y"
    and pkr: "\<forall>x \<in> set keep. \<forall>y \<in> set (u # rs). \<not> cancellable x y"
    unfolding loop_inv_def by simp_all
  from post have r1: "set rest \<subseteq> set rs" and r2: "distinct (map symbol rest)"
    and r3: "\<forall>d. dim_count d rest \<le> dim_count d rs"
    and r4: "symbol u' = symbol u" and r5: "dimension u' = dimension u"
    and r6: "expn u' \<noteq> 0"
    and r7: "\<not> c \<longrightarrow> (\<forall>y \<in> set rest. \<not> cancellable u' y)"
    and r8: "u' \<noteq> u \<or> c \<longrightarrow> dim_count (dimension u) rs = 1"
    unfolding scan_post_def by simp_all
  from d1 have su_rs: "symbol u \<notin> symbol ` set rs" and su_k: "symbol u \<notin> symbol ` set keep"
    and dk: "distinct (map symbol keep)"
    and disj: "symbol ` set rs \<inter> symbol ` set keep = {}"
    by simp_all
  have sub_img: "symbol ` set rest \<subseteq> symbol ` set rs" using r1 by (rule image_mono)
  have disj': "symbol ` set rest \<inter> symbol ` set keep = {}"
    using sub_img disj by blast
  have su_rest: "symbol u \<notin> symbol ` set rest" using sub_img su_rs by blast
  have nz_rest: "\<forall>x \<in> set rest. expn x \<noteq> 0"
  proof
    fix x assume "x \<in> set rest"
    with r1 have "x \<in> set ((u # rs) @ keep)" by auto
    with nz1 show "expn x \<noteq> 0" by (rule bspec)
  qed
  have nz_keep: "\<forall>x \<in> set keep. expn x \<noteq> 0"
  proof
    fix x assume "x \<in> set keep"
    then have "x \<in> set ((u # rs) @ keep)" by simp
    with nz1 show "expn x \<noteq> 0" by (rule bspec)
  qed
  have pkr': "\<forall>x \<in> set keep. \<forall>y \<in> set rest. \<not> cancellable x y"
  proof (intro ballI)
    fix x y assume x: "x \<in> set keep" and "y \<in> set rest"
    with r1 have "y \<in> set (u # rs)" by auto
    with pkr x show "\<not> cancellable x y" by blast
  qed
  show ?thesis
  proof (cases c)
    case True
    have a: "distinct (map symbol (rest @ keep))" using r2 dk disj' by simp
    have b: "\<forall>x \<in> set (rest @ keep). expn x \<noteq> 0" using nz_rest nz_keep by auto
    have cc: "\<forall>d. dim_count d rest + dim_count d keep \<le> 2"
    proof
      fix d
      from r3 have "dim_count d rest \<le> dim_count d rs" by (rule spec)
      moreover from cnt have "dim_count d (u # rs) + dim_count d keep \<le> 2" by (rule spec)
      ultimately show "dim_count d rest + dim_count d keep \<le> 2"
        by (simp add: dim_count_Cons split: if_splits)
    qed
    from a b cc pk pkr' True show ?thesis unfolding loop_inv_def by simp
  next
    case False
    let ?k = "keep @ [u']"
    have a: "distinct (map symbol (rest @ ?k))"
      using r2 dk disj' su_rest su_k r4 by simp
    have b: "\<forall>x \<in> set (rest @ ?k). expn x \<noteq> 0" using nz_rest nz_keep r6 by auto
    have cc: "\<forall>d. dim_count d rest + dim_count d ?k \<le> 2"
    proof
      fix d
      from r3 have "dim_count d rest \<le> dim_count d rs" by (rule spec)
      moreover from cnt have "dim_count d (u # rs) + dim_count d keep \<le> 2" by (rule spec)
      ultimately show "dim_count d rest + dim_count d ?k \<le> 2"
        by (simp add: dim_count_Cons dim_count_snoc r5 split: if_splits)
    qed
    have ku: "\<forall>x \<in> set keep. \<not> cancellable x u'"
    proof (cases "u' = u")
      case True
      show ?thesis
      proof
        fix x assume "x \<in> set keep"
        with pkr have "\<not> cancellable x u" by simp
        with True show "\<not> cancellable x u'" by simp
      qed
    next
      case neq: False
      with r8 have "dim_count (dimension u) rs = 1" by simp
      moreover from cnt have "dim_count (dimension u) (u # rs) + dim_count (dimension u) keep \<le> 2"
        by (rule spec)
      ultimately have z: "dim_count (dimension u) keep = 0" by (simp add: dim_count_Cons)
      show ?thesis
      proof
        fix x assume "x \<in> set keep"
        with z have "dimension x \<noteq> dimension u" by (rule dim_count_zero)
        then show "\<not> cancellable x u'" by (simp add: cancellable_def r5)
      qed
    qed
    have uk: "\<forall>x \<in> set keep. \<not> cancellable u' x"
    proof
      fix x assume "x \<in> set keep"
      with ku have "\<not> cancellable x u'" by (rule bspec)
      then show "\<not> cancellable u' x" by (simp add: cancellable_sym)
    qed
    have d: "\<forall>x \<in> set ?k. \<forall>y \<in> set ?k. symbol x \<noteq> symbol y \<longrightarrow> \<not> cancellable x y"
    proof (intro ballI impI)
      fix x y assume x: "x \<in> set ?k" and y: "y \<in> set ?k" and s: "symbol x \<noteq> symbol y"
      from x have x': "x \<in> set keep \<or> x = u'" by auto
      from y have y': "y \<in> set keep \<or> y = u'" by auto
      from x' y' s pk ku uk show "\<not> cancellable x y" by blast
    qed
    have e: "\<forall>x \<in> set ?k. \<forall>y \<in> set rest. \<not> cancellable x y"
    proof (intro ballI)
      fix x y assume x: "x \<in> set ?k" and y: "y \<in> set rest"
      from x have "x \<in> set keep \<or> x = u'" by auto
      then show "\<not> cancellable x y"
      proof
        assume "x \<in> set keep" with pkr' y show ?thesis by blast
      next
        assume "x = u'" with r7 False y show ?thesis by blast
      qed
    qed
    from a b cc d e False show ?thesis unfolding loop_inv_def by simp
  qed
qed

lemma two_per_dimension_all:
  assumes "two_per_dimension us"
  shows "dim_count d us \<le> 2"
proof (cases "dim_count d us = 0")
  case True
  then show ?thesis by simp
next
  case False
  then have "filter (\<lambda>u. dimension u = d) us \<noteq> []" by (simp add: dim_count_def)
  then obtain x where x: "x \<in> set us" and dx: "dimension x = d"
    by (auto simp: filter_empty_conv)
  from assms x have "dim_count (dimension x) us \<le> 2"
    unfolding two_per_dimension_def list_all_iff by (rule bspec)
  with dx show ?thesis by simp
qed

lemma loop_inv_start:
  assumes "well_formed A" and "two_per_dimension (base_units A)"
  shows "loop_inv (base_units A) []"
  using assms two_per_dimension_all [OF assms(2)]
  by (simp add: loop_inv_def well_formed_def no_zero_def list_all_iff dim_count_def)

lemma simplify_loop_two:
  assumes "loop_inv remaining keep"
  shows "\<exists>keep'. simplify_loop remaining keep = Some keep' \<and> loop_inv [] keep'"
  using assms
proof (induction "length remaining" arbitrary: remaining keep rule: less_induct)
  case less
  show ?case
  proof (cases remaining)
    case Nil
    have "simplify_loop [] keep = Some keep" by (subst simplify_loop.simps) simp
    with less.prems Nil show ?thesis by simp
  next
    case (Cons u rs)
    with less.prems have inv: "loop_inv (u # rs) keep" by simp
    then have d1: "distinct (map symbol ((u # rs) @ keep))"
      and nz1: "\<forall>x \<in> set ((u # rs) @ keep). expn x \<noteq> 0"
      and cnt: "\<forall>d. dim_count d (u # rs) + dim_count d keep \<le> 2"
      unfolding loop_inv_def by simp_all
    from d1 have su: "symbol u \<notin> symbol ` set rs" and drs: "distinct (map symbol rs)"
      by simp_all
    have p1: "\<forall>r \<in> set rs. symbol r \<noteq> symbol u"
    proof
      fix r assume "r \<in> set rs"
      then have "symbol r \<in> symbol ` set rs" by (rule imageI)
      with su show "symbol r \<noteq> symbol u" by metis
    qed
    from nz1 have p2: "expn u \<noteq> 0" by simp
    have p3: "\<forall>r \<in> set rs. expn r \<noteq> 0"
    proof
      fix r assume "r \<in> set rs"
      then have "r \<in> set ((u # rs) @ keep)" by simp
      with nz1 show "expn r \<noteq> 0" by (rule bspec)
    qed
    from cnt have "dim_count (dimension u) (u # rs) + dim_count (dimension u) keep \<le> 2"
      by (rule spec)
    then have p4: "dim_count (dimension u) rs \<le> 1" by (simp add: dim_count_Cons)
    have p5: "\<forall>k < 0. k < length rs \<longrightarrow> \<not> cancellable u (rs ! k)" by simp
    from simplify_scan_two [OF p1 p2 p3 p4 p5 drs]
    obtain u' rest c where s: "simplify_scan u rs 0 = Some (u', rest, c)"
      and post: "scan_post u rs u' rest c"
      by (elim exE conjE)
    from simplify_scan_returns [of u rs 0] s have "length rest \<le> length rs" by simp
    with Cons have l: "length rest < length remaining" by simp
    let ?k = "if \<not> c then keep @ [u'] else keep"
    have "loop_inv rest ?k" using inv post by (rule loop_inv_step)
    from less.hyps [OF l this]
    obtain keep' where k: "simplify_loop rest ?k = Some keep'" and i: "loop_inv [] keep'"
      by (elim exE conjE)
    have "simplify_loop remaining keep = Some keep'"
      using Cons s k by (subst simplify_loop.simps) simp
    with i show ?thesis by blast
  qed
qed

text \<open>A list in the invariant has no partners, in either order.\<close>

lemma no_partner_from_pairs:
  assumes "distinct (map symbol xs)" and "\<forall>x \<in> set xs. expn x \<noteq> 0"
    and "\<forall>x \<in> set xs. \<forall>y \<in> set xs. symbol x \<noteq> symbol y \<longrightarrow> \<not> cancellable x y"
  shows "no_partner xs"
  using assms
proof (induction xs)
  case Nil
  show ?case by simp
next
  case (Cons u rs)
  have d: "distinct (map symbol rs)" using Cons.prems(1) by simp
  have su: "symbol u \<notin> symbol ` set rs" using Cons.prems(1) by simp
  have nzu: "expn u \<noteq> 0" using Cons.prems(2) by simp
  have nz: "\<forall>x \<in> set rs. expn x \<noteq> 0" using Cons.prems(2) by simp
  have pk: "\<forall>x \<in> set rs. \<forall>y \<in> set rs. symbol x \<noteq> symbol y \<longrightarrow> \<not> cancellable x y"
    using Cons.prems(3) by simp
  have tl: "no_partner rs" using d nz pk by (rule Cons.IH)
  have "\<forall>r \<in> set rs. \<not> partner u r"
  proof
    fix r assume r: "r \<in> set rs"
    then have "symbol r \<in> symbol ` set rs" by (rule imageI)
    with su have ne: "symbol u \<noteq> symbol r" by metis
    have "u \<in> set (u # rs)" and "r \<in> set (u # rs)" using r by simp_all
    with Cons.prems(3) ne have "\<not> cancellable u r" by blast
    with ne nzu show "\<not> partner u r" by (simp add: partner_cancellable)
  qed
  with tl show ?case by (simp add: list_all_iff)
qed

lemma loop_inv_no_partner:
  assumes "loop_inv [] keep"
  shows "no_partner keep" and "no_partner (rev keep)"
    and "list_all (\<lambda>u. expn u \<noteq> 0) keep" and "distinct (map symbol keep)"
proof -
  from assms have d: "distinct (map symbol keep)" and nz: "\<forall>x \<in> set keep. expn x \<noteq> 0"
    and pk: "\<forall>x \<in> set keep. \<forall>y \<in> set keep. symbol x \<noteq> symbol y \<longrightarrow> \<not> cancellable x y"
    unfolding loop_inv_def by simp_all
  show "no_partner keep" using d nz pk by (rule no_partner_from_pairs)
  have d': "distinct (map symbol (rev keep))" using d by (simp add: rev_map [symmetric])
  have nz': "\<forall>x \<in> set (rev keep). expn x \<noteq> 0" using nz by simp
  have pk': "\<forall>x \<in> set (rev keep). \<forall>y \<in> set (rev keep).
      symbol x \<noteq> symbol y \<longrightarrow> \<not> cancellable x y" using pk by simp
  show "no_partner (rev keep)" using d' nz' pk' by (rule no_partner_from_pairs)
  show "list_all (\<lambda>u. expn u \<noteq> 0) keep" using nz by (simp add: list_all_iff)
  show "distinct (map symbol keep)" by (rule d)
qed

text \<open>
  A legacy run that returns visits the same units as unitkit's: the modifier does not
  enter any test.
\<close>

lemma legacy_simplify_scan_sim:
  "legacy_simplify_scan e u rs i m = Some (Inr (u', rest, c, m')) \<Longrightarrow>
   simplify_scan u rs i = Some (u', rest, c)"
proof (induction "length rs - i" arbitrary: u rs i m rule: less_induct)
  case less
  note run = less.prems
  show ?case
  proof (cases "i < length rs")
    case False
    with run have "u' = u \<and> rest = rs \<and> c = False"
      by (subst (asm) legacy_simplify_scan.simps) simp
    with False show ?thesis by (subst simplify_scan.simps) simp
  next
    case inr: True
    show ?thesis
    proof (cases "can_convert (base_times u (rs ! i))")
      case True
      with run inr have "u' = u \<and> rest = pop i rs \<and> c = True"
        by (subst (asm) legacy_simplify_scan.simps) (simp split: if_splits)
      with inr True show ?thesis by (subst simplify_scan.simps) simp
    next
      case nocancel: False
      show ?thesis
      proof (cases "can_convert (base_over u (rs ! i))")
        case fold: True
        let ?u = "u\<lparr>expn := expn u + expn (rs ! i)\<rparr>"
        let ?m = "m / (unit_mod e (rs ! i) * unit_mod e u)"
        from run inr nocancel fold
        have r: "legacy_simplify_scan e ?u (pop i rs) i ?m = Some (Inr (u', rest, c, m'))"
          by (subst (asm) legacy_simplify_scan.simps) (simp split: if_splits)
        have "length (pop i rs) - i < length rs - i" using inr by (simp add: pop_length)
        from less.hyps [OF this r]
        have "simplify_scan ?u (pop i rs) i = Some (u', rest, c)" .
        with inr nocancel fold show ?thesis by (subst simplify_scan.simps) simp
      next
        case False
        from run inr nocancel False
        have r: "legacy_simplify_scan e u rs (i + 1) m = Some (Inr (u', rest, c, m'))"
          by (subst (asm) legacy_simplify_scan.simps) simp
        have "length rs - (i + 1) < length rs - i" using inr by simp
        from less.hyps [OF this r]
        have "simplify_scan u rs (i + 1) = Some (u', rest, c)" .
        with inr nocancel False show ?thesis by (subst simplify_scan.simps) simp
      qed
    qed
  qed
qed

lemma legacy_simplify_loop_sim:
  "legacy_simplify_loop e remaining keep m = Some (Inr (keep', m')) \<Longrightarrow>
   simplify_loop remaining keep = Some keep'"
proof (induction "length remaining" arbitrary: remaining keep m rule: less_induct)
  case less
  note run = less.prems
  show ?case
  proof (cases "remaining = []")
    case True
    with run have "keep' = keep" by (subst (asm) legacy_simplify_loop.simps) simp
    with True show ?thesis by (subst simplify_loop.simps) simp
  next
    case False
    obtain res where
      s: "legacy_simplify_scan e (hd remaining) (tl remaining) 0 m = Some res"
      and l: "\<forall>u' rest c m'. res = Inr (u', rest, c, m') \<longrightarrow> length rest \<le> length (tl remaining)"
      using legacy_simplify_scan_returns [of e "hd remaining" "tl remaining" 0 m] by blast
    show ?thesis
    proof (cases res)
      case (Inl err)
      with s False run show ?thesis by (subst (asm) legacy_simplify_loop.simps) simp
    next
      case (Inr t)
      obtain u' rest c m1 where t: "t = (u', rest, c, m1)" by (cases t)
      with l Inr have "length rest \<le> length (tl remaining)" by blast
      with False have lt: "length rest < length remaining" by (cases remaining) simp_all
      let ?k = "if \<not> c then keep @ [u'] else keep"
      from run s Inr t False
      have r: "legacy_simplify_loop e rest ?k m1 = Some (Inr (keep', m'))"
        by (subst (asm) legacy_simplify_loop.simps) simp
      from less.hyps [OF lt r] have k: "simplify_loop rest ?k = Some keep'" .
      from s Inr t have "simplify_scan (hd remaining) (tl remaining) 0 = Some (u', rest, c)"
        by (simp add: legacy_simplify_scan_sim)
      with k False show ?thesis by (subst simplify_loop.simps) simp
    qed
  qed
qed

text \<open>
  \<^verbatim>\<open>simplify\<close> on a result without partners returns the same units, which unitkit's
  constructor reverses.
\<close>

lemma simplify_keeps_partner_free:
  assumes A: "simplify A = Some B" and np: "no_partner (base_units B)"
  shows "simplify B = Some (Units_of_list [] (base_units B))
      \<and> base_units (Units_of_list [] (base_units B)) = rev (base_units B)
      \<and> exponents (Units_of_list [] (base_units B)) = exponents B"
proof (intro conjI)
  from A obtain keep where B: "B = Units_of_list [] keep"
    by (auto simp: simplify_def)
  have dist: "distinct (map symbol (base_units B))"
    unfolding B by (rule Units_of_list_distinct)
  have nz: "list_all (\<lambda>u. expn u \<noteq> 0) (base_units B)"
    unfolding B by (rule Units_of_list_nonzero)
  show s: "simplify B = Some (Units_of_list [] (base_units B))"
    using simplify_loop_no_partner [OF np, of "[]"] by (simp add: simplify_def)
  have nzr: "list_all (\<lambda>u. expn u \<noteq> 0) (rev (base_units B))"
    using nz by (simp add: list_all_iff)
  show r: "base_units (Units_of_list [] (base_units B)) = rev (base_units B)"
    using combine_loop_distinct [OF dist, of "[]"] drop_zero_id [OF nzr]
    by (simp add: Units_of_list_def combine_unit_list_def drop_zero_def)
  have "map_of (map (\<lambda>u. (symbol u, expn u)) (rev (base_units B)))
        = map_of (map (\<lambda>u. (symbol u, expn u)) (base_units B))"
    unfolding rev_map [symmetric]
    by (rule map_of_rev_distinct) (simp add: comp_def dist)
  with r show "exponents (Units_of_list [] (base_units B)) = exponents B"
    by (simp add: exponents_def)
qed

lemma simplify_two_result:
  assumes "well_formed A" and "two_per_dimension (base_units A)"
  shows "\<exists>keep. simplify_loop (base_units A) [] = Some keep \<and> loop_inv [] keep"
  using loop_inv_start [OF assms] by (rule simplify_loop_two)

lemma Units_of_list_rev:
  assumes "distinct (map symbol keep)" and "list_all (\<lambda>u. expn u \<noteq> 0) keep"
  shows "base_units (Units_of_list [] keep) = rev keep"
proof -
  have "list_all (\<lambda>u. expn u \<noteq> 0) (rev keep)" using assms(2) by (simp add: list_all_iff)
  then show ?thesis
    using combine_loop_distinct [OF assms(1), of "[]"] drop_zero_id [of "rev keep"]
    by (simp add: Units_of_list_def combine_unit_list_def drop_zero_def)
qed

section \<open>Claims\<close>

text \<open>
  Claim C1, as the code has it. A bare number is coerced to a unitless quantity, without
  a warning, when the left operand's units are convertible to unitless (every
  dimension's exponents sum to zero, as for a unitless operand); it is coerced to a
  quantity sharing the left operand's units, with a warning, when the left operand
  carries real, non-cancelling dimensions. A quantity is passed through unchanged.
\<close>

theorem ensure_value_input_policy:
  "(can_convert (units self) \<longrightarrow>
      ensure_value_input e self (Number x) =
        (\<lparr>num = x, units = Units_parse e None, sigfigs = count_sigfigs (float_str e x)\<rparr>, [])
      \<and> is_unitless (Units_parse e None))
   \<and> (\<not> can_convert (units self) \<longrightarrow>
      ensure_value_input e self (Number x) =
        (\<lparr>num = x, units = units self, sigfigs = count_sigfigs (float_str e x)\<rparr>,
         [AssumingUnits (units self)]))
   \<and> ensure_value_input e self (Quantity v) = (v, [])"
  by (simp add: ensure_value_input_def Units_parse_def parse_units_def is_unitless_def
      drop_zero_def)

theorem ensure_value_input_policy_witness:
  "can_convert (units v_plain)
   \<and> ensure_value_input sample_env v_plain (Number 5) =
       (\<lparr>num = 5, units = Units_parse sample_env None, sigfigs = 2\<rparr>, [])
   \<and> is_unitless (Units_parse sample_env None)
   \<and> \<not> can_convert (units v_kg)
   \<and> ensure_value_input sample_env v_kg (Number 5) =
       (\<lparr>num = 5, units = units v_kg, sigfigs = 2\<rparr>, [AssumingUnits (units v_kg)])"
proof -
  have a: "can_convert (units v_plain)" by code_simp
  have b: "\<not> can_convert (units v_kg)" by code_simp
  have c: "count_sigfigs (float_str sample_env 5) = 2" by code_simp
  show ?thesis
    using a b c ensure_value_input_policy [of v_plain sample_env 5]
      ensure_value_input_policy [of v_kg sample_env 5]
    by simp
qed

text \<open>
  Claim C1 as written fails: the left operand \<open>5 kg\<close> carries a real dimension, and the
  number is not coerced to a unitless quantity but to one in \<open>kg\<close>, with the warning;
  for a unitless left operand no warning is emitted.
\<close>

theorem ensure_value_input_dimensioned_counterexample:
  "\<not> can_convert (units v_kg)
   \<and> \<not> is_unitless (units (fst (ensure_value_input sample_env v_kg (Number 5))))
   \<and> units (fst (ensure_value_input sample_env v_kg (Number 5))) = units v_kg
   \<and> snd (ensure_value_input sample_env v_kg (Number 5)) = [AssumingUnits (units v_kg)]
   \<and> is_unitless (units v_plain)
   \<and> snd (ensure_value_input sample_env v_plain (Number 5)) = []"
  by code_simp



text \<open>
  Claim C4 at a concrete input. The legacy \<^verbatim>\<open>convert_units\<close> has no temperature
  branch: 0 degrees Celsius converted to Fahrenheit goes through the multiplicative
  factor and stays 0. On the same input unitkit takes the temperature branch and
  returns what the converter gives, 32 for the affine map of the sample environment.
\<close>

theorem legacy_convert_units_temperature_is_multiplicative:
  "\<not> isl (legacy_convert_units sample_env v_zero_degC (Units_of_base (u_degF 1)) None)
   \<and> num (projr (legacy_convert_units sample_env v_zero_degC (Units_of_base (u_degF 1)) None)) = 0
   \<and> convert_units sample_env v_zero_degC (Units_of_base (u_degF 1)) None =
        Inr \<lparr>num = 32, units = Units_of_base (u_degF 1), sigfigs = 0\<rparr>"
  by code_simp

text \<open>
  Claim C6 at a concrete input. The receiver holds \<open>m^1\<close> and \<open>cm^1\<close> at the addresses 0
  and 1. After \<^verbatim>\<open>simplify\<close> the receiver's first unit has exponent 2: the working list
  is a copy of the list, and \<^verbatim>\<open>u.exp += other.exp\<close> writes to the receiver's own object.
\<close>

theorem simplify_mutates_receiver:
  "receiver_after_simplify [u_m 1, u_cm 1] [0, 1] = Some [u_m 2, u_cm 1]
   \<and> [u_m 2, u_cm 1] \<noteq> [u_m 1, u_cm 1]"
  by code_simp

text \<open>The legacy \<^verbatim>\<open>update_exp\<close> writes to the receiver's units as well.\<close>

lemma legacy_update_exp_mutates_receiver:
  "map (\<lambda>a. legacy_store_update_exp [u_m 1, u_s (- 1)] [0, 1] 2 ! a) [0, 1] = [u_m 2, u_s (- 2)]"
  by code_simp

text \<open>
  Claim C7 at a concrete input. \<^verbatim>\<open>Units.update_exp(0)\<close> on the expression \<open>m\<close> returns an
  expression that holds \<open>m\<close> with exponent 0.
\<close>

theorem update_exp_zero_keeps_unit:
  "base_units (Units_update_exp (Units_of_list [] [u_m 1]) 0) = [u_m 0]
   \<and> list_ex (\<lambda>u. expn u = 0) (base_units (Units_update_exp (Units_of_list [] [u_m 1]) 0))"
  by code_simp

text \<open>The same through \<^verbatim>\<open>Value.__pow__\<close>: \<open>(2 m) ** 0\<close>.\<close>

lemma Value_pow_zero_keeps_unit:
  "Value_pow sample_env v_two_m (Number 0) =
     Inr \<lparr>num = 1, units = \<lparr>string = [], base_units = [u_m 0]\<rparr>, sigfigs = 1\<rparr>"
  by code_simp

text \<open>
  Claim C10. When the left quantity's number is 0 and the units of the two quantities
  are convertible, \<^verbatim>\<open>equals\<close> and \<^verbatim>\<open>==\<close> raise \<^verbatim>\<open>ZeroDivisionError\<close>: the conversion
  succeeds and the difference is divided by the left number. The same holds in the
  legacy module.
\<close>

theorem equals_zero_raises:
  assumes "num q1 = 0" and "can_convert (Units_div (units q1) (units q2))"
  shows "equals e q1 (Quantity q2) epsilon = Inl ZeroDivisionError
       \<and> Value_eq e q1 (Quantity q2) = Inl ZeroDivisionError
       \<and> legacy_equals e q1 (Quantity q2) epsilon = Inl ZeroDivisionError"
proof -
  obtain r where r: "convert_units e q2 (units q1) None = Inr r"
    using convert_units_direct_ok [OF assms(2)] by blast
  obtain r' where r': "legacy_convert_units e q2 (units q1) None = Inr r'"
    using legacy_convert_units_direct_ok [OF assms(2)] by blast
  show ?thesis
    using assms(1) r r'
    by (simp add: equals_def Value_eq_def legacy_equals_def ensure_value_input_def)
qed

theorem equals_zero_raises_witness:
  "num v_zero_kg = 0 \<and> can_convert (Units_div (units v_zero_kg) (units v_g))
   \<and> equals sample_env v_zero_kg (Quantity v_g) (5 / 1000) = Inl ZeroDivisionError
   \<and> Value_eq sample_env v_zero_kg (Quantity v_g) = Inl ZeroDivisionError
   \<and> legacy_equals sample_env v_zero_kg (Quantity v_g) (5 / 1000) = Inl ZeroDivisionError"
proof -
  have a: "num v_zero_kg = 0" by (simp add: v_zero_kg_def)
  have b: "can_convert (Units_div (units v_zero_kg) (units v_g))" by code_simp
  show ?thesis using a b equals_zero_raises [OF a b, of sample_env "5 / 1000"] by simp
qed

text \<open>
  Claim C3, as the code has it. Let the ratio of target and source units be not
  convertible to unitless, outside the temperature branch. If the ratio becomes
  convertible when multiplied or divided by \<^verbatim>\<open>g/mol\<close>, then \<^verbatim>\<open>convert_units\<close> raises the
  missing-molecular-weight exception if and only if no \<^verbatim>\<open>mw\<close> is supplied; with \<^verbatim>\<open>mw\<close>
  supplied it raises exactly when the molecular weight is used inverted and its number
  is 0, and the exception is then \<^verbatim>\<open>ZeroDivisionError\<close> from \<^verbatim>\<open>1 / mw\<close>. If neither
  multiplying nor dividing makes the ratio convertible, it raises the exception that
  carries the source and the target unit expressions. Both modules behave so.
\<close>

theorem convert_units_bridge_errors:
  assumes "\<not> is_temperature_conversion e (units q) T"
    and "\<not> can_convert (Units_div T (units q))"
  shows "(bridge_inverted e (Units_div T (units q)) \<or> bridge_direct e (Units_div T (units q)) \<longrightarrow>
           ((convert_units e q T mw = Inl NeedsMolecularWeight) = (mw = None))
           \<and> ((legacy_convert_units e q T mw = Inl NeedsMolecularWeight) = (mw = None))
           \<and> (\<forall>m. mw = Some m \<longrightarrow>
                 isl (convert_units e q T mw) =
                   (bridge_inverted e (Units_div T (units q)) \<and> num m = 0)
                 \<and> isl (legacy_convert_units e q T mw) =
                   (bridge_inverted e (Units_div T (units q)) \<and> num m = 0)
                 \<and> (num m = 0 \<and> bridge_inverted e (Units_div T (units q)) \<longrightarrow>
                      convert_units e q T mw = Inl ZeroDivisionError
                      \<and> legacy_convert_units e q T mw = Inl ZeroDivisionError)))
       \<and> (\<not> bridge_inverted e (Units_div T (units q)) \<and> \<not> bridge_direct e (Units_div T (units q)) \<longrightarrow>
           convert_units e q T mw = Inl (CantConvert (units q) T)
           \<and> legacy_convert_units e q T mw = Inl (CantConvert (units q) T))"
proof -
  have nu: "\<not> is_unitless (Units_div T (units q))"
    using assms(2) is_unitless_can_convert by blast
  show ?thesis
    using assms(1) nu
    by (auto simp: convert_units_def legacy_convert_units_def Let_def
        resolve_mw_cases [OF assms(2)] split: option.splits)
qed

theorem convert_units_bridge_errors_witness:
  "\<not> is_temperature_conversion sample_env (units v_amount) (Units_of_base (u_g 1))
   \<and> \<not> can_convert (Units_div (Units_of_base (u_g 1)) (units v_amount))
   \<and> bridge_direct sample_env (Units_div (Units_of_base (u_g 1)) (units v_amount))
   \<and> convert_units sample_env v_amount (Units_of_base (u_g 1)) None = Inl NeedsMolecularWeight
   \<and> legacy_convert_units sample_env v_amount (Units_of_base (u_g 1)) None = Inl NeedsMolecularWeight
   \<and> \<not> isl (convert_units sample_env v_amount (Units_of_base (u_g 1)) (Some mw_water))
   \<and> \<not> isl (legacy_convert_units sample_env v_amount (Units_of_base (u_g 1)) (Some mw_water))
   \<and> \<not> is_temperature_conversion sample_env (units v_kg) (Units_of_base (u_m 1))
   \<and> \<not> can_convert (Units_div (Units_of_base (u_m 1)) (units v_kg))
   \<and> \<not> bridge_inverted sample_env (Units_div (Units_of_base (u_m 1)) (units v_kg))
   \<and> \<not> bridge_direct sample_env (Units_div (Units_of_base (u_m 1)) (units v_kg))
   \<and> convert_units sample_env v_kg (Units_of_base (u_m 1)) None =
        Inl (CantConvert (units v_kg) (Units_of_base (u_m 1)))
   \<and> legacy_convert_units sample_env v_kg (Units_of_base (u_m 1)) None =
        Inl (CantConvert (units v_kg) (Units_of_base (u_m 1)))"
proof -
  have a1: "\<not> is_temperature_conversion sample_env (units v_amount) (Units_of_base (u_g 1))"
    by code_simp
  have a2: "\<not> can_convert (Units_div (Units_of_base (u_g 1)) (units v_amount))"
    by code_simp
  have a3: "bridge_direct sample_env (Units_div (Units_of_base (u_g 1)) (units v_amount))"
    by code_simp
  have a4: "\<not> bridge_inverted sample_env (Units_div (Units_of_base (u_g 1)) (units v_amount))"
    by code_simp
  have b1: "\<not> is_temperature_conversion sample_env (units v_kg) (Units_of_base (u_m 1))"
    by code_simp
  have b2: "\<not> can_convert (Units_div (Units_of_base (u_m 1)) (units v_kg))"
    by code_simp
  have b3: "\<not> bridge_inverted sample_env (Units_div (Units_of_base (u_m 1)) (units v_kg))"
    by code_simp
  have b4: "\<not> bridge_direct sample_env (Units_div (Units_of_base (u_m 1)) (units v_kg))"
    by code_simp
  show ?thesis
    using a1 a2 a3 a4 b1 b2 b3 b4
      convert_units_bridge_errors [OF a1 a2, of None]
      convert_units_bridge_errors [OF a1 a2, of "Some mw_water"]
      convert_units_bridge_errors [OF b1 b2, of None]
    by simp
qed

text \<open>
  Claim C3 as written fails: converting \<open>18 g\<close> to \<open>mol\<close> needs the molecular
  weight inverted, and with the supplied molecular weight \<open>0 g/mol\<close> the conversion
  raises although a bridge quantity was given.
\<close>

theorem convert_units_zero_bridge_counterexample:
  "\<not> is_temperature_conversion sample_env (units v_mass) (Units_of_base (u_mol 1))
   \<and> \<not> can_convert (Units_div (Units_of_base (u_mol 1)) (units v_mass))
   \<and> can_convert (Units_mul (Units_div (Units_of_base (u_mol 1)) (units v_mass))
         (Units_parse sample_env (Some ''g/mol'')))
   \<and> convert_units sample_env v_mass (Units_of_base (u_mol 1)) (Some mw_zero) = Inl ZeroDivisionError
   \<and> legacy_convert_units sample_env v_mass (Units_of_base (u_mol 1)) (Some mw_zero) =
        Inl ZeroDivisionError"
  by code_simp

text \<open>
  Claim C5 at a concrete input of unitkit. In the reflected subtraction \<open>5 - q\<close> with
  \<open>q = 1.234 m\<close> of 4 sigfigs the number is coerced to a quantity of 2 sigfigs (the
  text \<^verbatim>\<open>5.0\<close>), and the result has 4, more than the minimum of the two.
  \<^verbatim>\<open>__sub__\<close>, \<^verbatim>\<open>__add__\<close> and \<^verbatim>\<open>__radd__\<close> coerce the same number and return 2.
\<close>

theorem rsub_keeps_receiver_sigfigs:
  "Value_rsub sample_env v_len (Number 5) = Inr r_diff
   \<and> sigfigs r_diff = 4
   \<and> sigfigs v_len = 4
   \<and> sigfigs (fst (ensure_value_input sample_env v_len (Number 5))) = 2
   \<and> \<not> sigfigs r_diff
        \<le> min (sigfigs v_len) (sigfigs (fst (ensure_value_input sample_env v_len (Number 5))))
   \<and> map_sum id sigfigs (Value_sub sample_env v_len (Number 5)) = Inr 2
   \<and> map_sum id sigfigs (Value_add sample_env v_len (Number 5)) = Inr 2
   \<and> map_sum id sigfigs (Value_radd sample_env v_len (Number 5)) = Inr 2"
  by code_simp

text \<open>
  Claim C8. \<^verbatim>\<open>simplify\<close> returns for every unit expression, in unitkit and in the
  legacy module (where it may return by raising). Every pass of the outer loop leaves
  a strictly shorter list of remaining units. The inner scan never lengthens the list,
  and it leaves a strictly shorter one whenever it cancelled a pair or folded a
  partner into \<open>u\<close>, the branch where \<open>u\<close> is kept and \<open>r\<close> is removed. Inside the scan
  the number of units still to be looked at, \<open>length remaining - i\<close>, decreases both
  when a unit is popped and when the index advances.
\<close>

theorem simplify_terminates:
  "(\<exists>U. simplify A = Some U)
   \<and> (\<exists>R. legacy_simplify e A = Some R)
   \<and> (\<forall>remaining keep. remaining \<noteq> [] \<longrightarrow>
        (\<exists>rest keep'. simplify_iter (remaining, keep) = Some (rest, keep')
           \<and> length rest < length remaining))
   \<and> (\<forall>u remaining i. \<exists>u' rest c. simplify_scan u remaining i = Some (u', rest, c)
        \<and> length rest \<le> length remaining
        \<and> (c \<or> u' \<noteq> u \<longrightarrow> length rest < length remaining))
   \<and> (\<forall>u remaining i m. \<exists>res. legacy_simplify_scan e u remaining i m = Some res
        \<and> (\<forall>u' rest c m'. res = Inr (u', rest, c, m') \<longrightarrow> length rest \<le> length remaining))
   \<and> (\<forall>(remaining :: BaseUnit list) i. i < length remaining \<longrightarrow>
        length (pop i remaining) - i < length remaining - i
        \<and> length remaining - (i + 1) < length remaining - i)"
proof -
  obtain k where "simplify_loop (base_units A) [] = Some k"
    using simplify_loop_returns by blast
  then have a: "\<exists>U. simplify A = Some U" by (simp add: simplify_def)
  obtain res where "legacy_simplify_loop e (base_units A) [] 1 = Some res"
    using legacy_simplify_loop_returns by blast
  then have b: "\<exists>R. legacy_simplify e A = Some R"
    by (cases res) (auto simp: legacy_simplify_def)
  have c: "\<forall>remaining keep. remaining \<noteq> [] \<longrightarrow>
        (\<exists>rest keep'. simplify_iter (remaining, keep) = Some (rest, keep')
           \<and> length rest < length remaining)"
    using simplify_iter_shrinks by blast
  have d: "\<forall>u remaining i. \<exists>u' rest c. simplify_scan u remaining i = Some (u', rest, c)
        \<and> length rest \<le> length remaining
        \<and> (c \<or> u' \<noteq> u \<longrightarrow> length rest < length remaining)"
    using simplify_scan_returns by blast
  have f: "\<forall>u remaining i m. \<exists>res. legacy_simplify_scan e u remaining i m = Some res
        \<and> (\<forall>u' rest c m'. res = Inr (u', rest, c, m') \<longrightarrow> length rest \<le> length remaining)"
    using legacy_simplify_scan_returns by blast
  have g: "\<forall>(remaining :: BaseUnit list) i. i < length remaining \<longrightarrow>
        length (pop i remaining) - i < length remaining - i
        \<and> length remaining - (i + 1) < length remaining - i"
    by (auto simp: pop_length)
  from a b c d f g show ?thesis by (intro conjI)
qed

theorem simplify_terminates_witness:
  "[u_m 1, u_cm 1] \<noteq> []
   \<and> simplify_iter ([u_m 1, u_cm 1], []) = Some ([], [u_m 2])
   \<and> length ([] :: BaseUnit list) < length [u_m 1, u_cm 1]
   \<and> simplify speed_mixed = Some speed_once
   \<and> (\<exists>rest keep'. simplify_iter ([u_m 1, u_cm 1], []) = Some (rest, keep')
         \<and> length rest < length [u_m 1, u_cm 1])
   \<and> (\<exists>U. simplify speed_mixed = Some U)"
proof -
  have a: "[u_m 1, u_cm 1] \<noteq> []" by simp
  have b: "simplify_iter ([u_m 1, u_cm 1], []) = Some ([], [u_m 2])" by code_simp
  have c: "simplify speed_mixed = Some speed_once" by code_simp
  from simplify_terminates [of speed_mixed sample_env]
  have d: "\<forall>remaining keep. remaining \<noteq> [] \<longrightarrow>
        (\<exists>rest keep'. simplify_iter (remaining, keep) = Some (rest, keep')
           \<and> length rest < length remaining)"
    and f: "\<exists>U. simplify speed_mixed = Some U"
    by blast+
  from d a have g: "\<exists>rest keep'. simplify_iter ([u_m 1, u_cm 1], []) = Some (rest, keep')
         \<and> length rest < length [u_m 1, u_cm 1]"
    by blast
  from a b c g f show ?thesis by simp
qed

text \<open>
  Claim C9, as the code has it. For a unit expression \<open>A\<close> in which no symbol occurs
  twice, no exponent is 0 and no dimension occurs more than twice, \<^verbatim>\<open>simplify\<close>
  returns an expression \<open>B\<close>, and simplifying \<open>B\<close> again gives an expression with the
  same symbol-to-exponent mapping: in unitkit the same units in reverse order, in the
  legacy module (when its first call returns an expression) \<open>B\<close> itself with
  modifier 1.
\<close>

theorem simplify_idempotent_two_per_dimension:
  assumes "well_formed A" and "two_per_dimension (base_units A)"
  shows "(\<exists>B. simplify A = Some B
            \<and> simplify B = Some (Units_of_list [] (base_units B))
            \<and> base_units (Units_of_list [] (base_units B)) = rev (base_units B)
            \<and> exponents (Units_of_list [] (base_units B)) = exponents B)
       \<and> (legacy_simplify e A = Some (Inr (B', m)) \<longrightarrow>
            legacy_simplify e B' = Some (Inr (B', 1)))"
proof (intro conjI impI)
  from simplify_two_result [OF assms]
  obtain keep where k: "simplify_loop (base_units A) [] = Some keep"
    and inv: "loop_inv [] keep"
    by (elim exE conjE)
  let ?B = "Units_of_list [] keep"
  have s: "simplify A = Some ?B" using k by (simp add: simplify_def)
  have "base_units ?B = rev keep"
    using loop_inv_no_partner(4) [OF inv] loop_inv_no_partner(3) [OF inv]
    by (rule Units_of_list_rev)
  with loop_inv_no_partner(2) [OF inv] have np: "no_partner (base_units ?B)" by simp
  from simplify_keeps_partner_free [OF s np] s
  show "\<exists>B. simplify A = Some B
            \<and> simplify B = Some (Units_of_list [] (base_units B))
            \<and> base_units (Units_of_list [] (base_units B)) = rev (base_units B)
            \<and> exponents (Units_of_list [] (base_units B)) = exponents B"
    by blast
next
  assume l: "legacy_simplify e A = Some (Inr (B', m))"
  then obtain keep where lk: "legacy_simplify_loop e (base_units A) [] 1 = Some (Inr (keep, m))"
    and B': "B' = legacy_Units_of_list [] keep"
    by (auto simp: legacy_simplify_def split: option.splits sum.splits)
  from lk have k: "simplify_loop (base_units A) [] = Some keep"
    by (rule legacy_simplify_loop_sim)
  from simplify_two_result [OF assms] k have inv: "loop_inv [] keep" by simp
  have "base_units B' = keep"
    unfolding B' using drop_zero_id [OF loop_inv_no_partner(3) [OF inv]]
    by (simp add: legacy_Units_of_list_def)
  with loop_inv_no_partner(1) [OF inv] have "no_partner (base_units B')" by simp
  with l show "legacy_simplify e B' = Some (Inr (B', 1))"
    by (rule legacy_simplify_fixpoint)
qed

theorem simplify_idempotent_two_per_dimension_witness:
  "well_formed speed_mixed
   \<and> two_per_dimension (base_units speed_mixed)
   \<and> simplify speed_mixed = Some speed_once
   \<and> simplify speed_once = Some (Units_of_list [] (base_units speed_once))
   \<and> base_units (Units_of_list [] (base_units speed_once)) = rev (base_units speed_once)
   \<and> exponents (Units_of_list [] (base_units speed_once)) = exponents speed_once
   \<and> legacy_simplify sample_env speed_mixed = Some (Inr (legacy_speed_once, 1 / 100))
   \<and> legacy_simplify sample_env legacy_speed_once = Some (Inr (legacy_speed_once, 1))"
proof -
  have w: "well_formed speed_mixed" by code_simp
  have t: "two_per_dimension (base_units speed_mixed)" by code_simp
  have a: "simplify speed_mixed = Some speed_once" by code_simp
  have c: "legacy_simplify sample_env speed_mixed = Some (Inr (legacy_speed_once, 1 / 100))"
    by code_simp
  show ?thesis
    using w t a c
      simplify_idempotent_two_per_dimension
        [OF w t, where e = sample_env and B' = legacy_speed_once and m = "1 / 100"]
    by simp
qed

text \<open>
  Claim C9 as written fails with three units of one dimension. The units
  \<open>m^1, km^2, cm^1\<close> simplify to \<open>km^2, cm^2\<close>
  in unitkit: the scan folds \<open>m\<close> into \<open>cm\<close> after it has passed \<open>km^2\<close>, and does not
  look at \<open>km^2\<close> again. A second \<^verbatim>\<open>simplify\<close> folds these two into \<open>km^4\<close>. The legacy
  module goes from \<open>m^2, km^2\<close> to \<open>m^4\<close>.
\<close>

theorem simplify_not_idempotent_counterexample:
  "simplify lengths_mixed = Some lengths_once
   \<and> simplify lengths_once = Some lengths_twice
   \<and> exponents lengths_once ''km'' = Some 2
   \<and> exponents lengths_twice ''km'' = Some 4
   \<and> exponents lengths_twice \<noteq> exponents lengths_once
   \<and> legacy_simplify sample_env legacy_lengths_mixed = Some (Inr (legacy_lengths_once, 1 / 100))
   \<and> legacy_simplify sample_env legacy_lengths_once = Some (Inr (legacy_lengths_twice, 1))
   \<and> exponents legacy_lengths_once ''m'' = Some 2
   \<and> exponents legacy_lengths_twice ''m'' = Some 4"
proof -
  have a: "simplify lengths_mixed = Some lengths_once" by code_simp
  have b: "simplify lengths_once = Some lengths_twice" by code_simp
  have c: "exponents lengths_once ''km'' = Some 2" by code_simp
  have d: "exponents lengths_twice ''km'' = Some 4" by code_simp
  have f: "legacy_simplify sample_env legacy_lengths_mixed = Some (Inr (legacy_lengths_once, 1 / 100))"
    by code_simp
  have g: "legacy_simplify sample_env legacy_lengths_once = Some (Inr (legacy_lengths_twice, 1))"
    by code_simp
  have h: "exponents legacy_lengths_once ''m'' = Some 2" by code_simp
  have i: "exponents legacy_lengths_twice ''m'' = Some 4" by code_simp
  have "exponents lengths_twice \<noteq> exponents lengths_once"
  proof
    assume "exponents lengths_twice = exponents lengths_once"
    then have "exponents lengths_twice ''km'' = exponents lengths_once ''km''" by simp
    with c d show False by simp
  qed
  with a b c d f g h i show ?thesis by simp
qed

end
